theory Spec2Isabelle
  imports Complex_Main "HOL-Library.Multiset" "HOL-Library.Sublist"
begin

section \<open>Python strings\<close>

text \<open>
  A Python \<open>str\<close> is modelled as a \<^typ>\<open>string\<close>: one \<^typ>\<open>char\<close> per character,
  with code points below 256. All patterns and separators of the scripts are ASCII.
\<close>

text \<open>\<open>s.split(sep)\<close> for a one-character separator: never empty, \<open>''.split('/') == ['']\<close>.\<close>

fun split_chr :: "char \<Rightarrow> string \<Rightarrow> string list" where
  "split_chr sep [] = [[]]"
| "split_chr sep (c # cs) =
     (if c = sep then [] # split_chr sep cs
      else (c # hd (split_chr sep cs)) # tl (split_chr sep cs))"

text \<open>\<open>sep.join(parts)\<close>.\<close>

fun join_str :: "string \<Rightarrow> string list \<Rightarrow> string" where
  "join_str sep [] = []"
| "join_str sep [p] = p"
| "join_str sep (p # q # ps) = p @ sep @ join_str sep (q # ps)"

text \<open>\<open>xs[:n]\<close> for a Python integer \<open>n\<close>: a negative bound counts from the end.\<close>

definition py_take :: "int \<Rightarrow> 'a list \<Rightarrow> 'a list" where
  "py_take n xs = (if 0 \<le> n then take (nat n) xs else take (length xs - nat (- n)) xs)"

text \<open>\<open>s[n:]\<close> for \<open>n = len(prefix)\<close>, which is never negative.\<close>

definition py_from :: "nat \<Rightarrow> 'a list \<Rightarrow> 'a list" where
  "py_from n xs = drop n xs"

text \<open>\<open>s.endswith(suffix)\<close>.\<close>

definition endswith :: "string \<Rightarrow> string \<Rightarrow> bool" where
  "endswith s suf = (length suf \<le> length s \<and> drop (length s - length suf) s = suf)"

text \<open>\<open>s.startswith(p)\<close>.\<close>

definition startswith :: "string \<Rightarrow> string \<Rightarrow> bool" where
  "startswith s p = (take (length p) s = p)"

text \<open>\<open>needle in s\<close> for strings: \<open>needle\<close> occurs as a contiguous block.\<close>

fun contains_str :: "string \<Rightarrow> string \<Rightarrow> bool" where
  "contains_str needle [] = (needle = [])"
| "contains_str needle (c # cs) = (startswith (c # cs) needle \<or> contains_str needle cs)"

section \<open>Object listings\<close>

text \<open>
  Whatever the SDK raises is an \<open>Exception\<close>; the scripts only ever print it.
  \<open>OverflowError\<close> is what \<open>float(n)\<close> raises for an integer beyond the range of a float.
\<close>

datatype error = SdkError string | OverflowError

record s3_object =
  Key :: string
  Size :: int

text \<open>
  One page of \<open>list_objects_v2\<close>: the entry \<open>'Contents'\<close> is absent (\<open>None\<close>) when the
  page has no object. The paginator is iterated lazily, so each step either yields a page
  or raises; iteration stops at the first exception.
\<close>

type_synonym page = "s3_object list option"
type_synonym listing = "(error + page) list"

text \<open>\<open>page.get('Contents', [])\<close>.\<close>

definition contents :: "page \<Rightarrow> s3_object list" where
  "contents p = (case p of None \<Rightarrow> [] | Some objs \<Rightarrow> objs)"

section \<open>Folder grouping, first level (s3\_folder\_sizes.py)\<close>

text \<open>
  \<open>folder_sizes[folder] += size\<close> on a \<open>defaultdict(int)\<close>: a dictionary keeps its keys in
  insertion order, so it is an association list with distinct keys; a missing key starts
  at 0.
\<close>

fun dict_add :: "(string \<times> int) list \<Rightarrow> string \<Rightarrow> int \<Rightarrow> (string \<times> int) list" where
  "dict_add [] k v = [(k, 0 + v)]"
| "dict_add ((k', v') # d) k v =
     (if k' = k then (k', v' + v) # d else (k', v') # dict_add d k v)"

text \<open>\<open>key[len(prefix):] if prefix else key\<close>.\<close>

definition strip_prefix :: "string \<Rightarrow> string \<Rightarrow> string" where
  "strip_prefix pfx key = (if pfx \<noteq> [] then py_from (length pfx) key else key)"

text \<open>The grouping key of one object in s3\_folder\_sizes.py.\<close>

definition folder_key :: "string \<Rightarrow> string \<Rightarrow> string" where
  "folder_key pfx key =
     (let stripped_key = strip_prefix pfx key;
          parts = split_chr CHR ''/'' stripped_key
      in if CHR ''/'' \<in> set stripped_key then hd parts else ''(root)'')"

text \<open>The grouping key of one object in s3\_folder\_sizes\_2level.py.\<close>

definition folder_key_depth :: "int \<Rightarrow> string \<Rightarrow> string \<Rightarrow> string" where
  "folder_key_depth depth pfx key =
     (let stripped_key = strip_prefix pfx key;
          parts = split_chr CHR ''/'' stripped_key
      in if length parts = 1 then ''(root)'' else join_str ''/'' (py_take depth parts))"

text \<open>The loop over the pages, with the grouping key as a parameter of the loop body.\<close>

fun group_pages :: "(string \<Rightarrow> string) \<Rightarrow> listing \<Rightarrow> (string \<times> int) list
    \<Rightarrow> error + (string \<times> int) list" where
  "group_pages f [] folder_sizes = Inr folder_sizes"
| "group_pages f (Inl e # pages) folder_sizes = Inl e"
| "group_pages f (Inr p # pages) folder_sizes =
     group_pages f pages
       (foldl (\<lambda>d obj. dict_add d (f (Key obj)) (Size obj)) folder_sizes (contents p))"

text \<open>\<open>get_s3_folder_sizes(bucket_name, prefix)\<close> of s3\_folder\_sizes.py, on the listing
  the paginator yields for that bucket and prefix.\<close>

definition get_s3_folder_sizes :: "listing \<Rightarrow> string \<Rightarrow> error + (string \<times> int) list" where
  "get_s3_folder_sizes pages pfx = group_pages (folder_key pfx) pages []"

text \<open>\<open>get_s3_folder_sizes(bucket_name, prefix, depth)\<close> of s3\_folder\_sizes\_2level.py.\<close>

definition get_s3_folder_sizes_2level :: "listing \<Rightarrow> string \<Rightarrow> int \<Rightarrow> error + (string \<times> int) list" where
  "get_s3_folder_sizes_2level pages pfx depth = group_pages (folder_key_depth depth pfx) pages []"

section \<open>Folder analysis with totals (s3\_bucket\_sizes\_with\_folder.py)\<close>

text \<open>What the scripts print, line by line; the texts themselves are not modelled.\<close>

datatype message =
    Analysing string string
  | Progress int int
  | FolderError string string error
  | ListError error
  | MetricsWarning string error
  | BucketProgress nat nat string int
  | FutureError string error
  | NoBuckets
  | Found nat
  | CredentialsError error
  | AccessError string string
  | Timeout string
  | NotInstalled
  | ProcessError string error
  | InvalidBucket string
  | CredentialsOk
  | SummaryRow string int
  | Total int
  | CliVersion string
  | CliUnavailable
  | CliProgress nat nat string int

text \<open>The value \<open>{'size': s, 'count': c}\<close> kept for each subfolder.\<close>

record subfolder_entry =
  entry_size :: int
  entry_count :: int

text \<open>
  The dictionary update of the loop body: insert \<open>{'size': 0, 'count': 0}\<close> when the key
  is missing, then add the object's size and 1.
\<close>

fun entry_add :: "(string \<times> subfolder_entry) list \<Rightarrow> string \<Rightarrow> int
    \<Rightarrow> (string \<times> subfolder_entry) list" where
  "entry_add [] k v = [(k, \<lparr>entry_size = 0 + v, entry_count = 0 + 1\<rparr>)]"
| "entry_add ((k', e) # d) k v =
     (if k' = k then (k', \<lparr>entry_size = entry_size e + v, entry_count = entry_count e + 1\<rparr>) # d
      else (k', e) # entry_add d k v)"

text \<open>The local variables of \<open>get_folder_size_s3\<close>, and the lines printed so far.\<close>

record folder_state =
  total_size :: int
  object_count :: int
  subfolder_sizes :: "(string \<times> subfolder_entry) list"
  printed :: "message list"

text \<open>The key under which one object is counted.\<close>

definition subfolder_key_of :: "string \<Rightarrow> string \<Rightarrow> string" where
  "subfolder_key_of folder_path obj_key =
     (let relative_path = py_from (length folder_path) obj_key
      in if CHR ''/'' \<in> set relative_path
         then folder_path @ hd (split_chr CHR ''/'' relative_path) @ ''/''
         else folder_path @ ''(archivos directos)'')"

text \<open>One pass of the inner loop. The progress line is printed every 1000 objects.\<close>

definition folder_step :: "string \<Rightarrow> folder_state \<Rightarrow> s3_object \<Rightarrow> folder_state" where
  "folder_step folder_path st obj =
     (let obj_key = Key obj;
          obj_size = Size obj;
          total = total_size st + obj_size;
          cnt = object_count st + 1
      in \<lparr>total_size = total,
          object_count = cnt,
          subfolder_sizes = entry_add (subfolder_sizes st) (subfolder_key_of folder_path obj_key) obj_size,
          printed = printed st @ (if cnt mod 1000 = 0 then [Progress cnt total] else [])\<rparr>)"

text \<open>
  The loop over the pages; a page without \<open>'Contents'\<close> is skipped. An exception of the
  paginator leaves the loop with what was printed so far.
\<close>

fun folder_pages :: "string \<Rightarrow> listing \<Rightarrow> folder_state \<Rightarrow> (error \<times> message list) + folder_state" where
  "folder_pages folder_path [] st = Inr st"
| "folder_pages folder_path (Inl e # pages) st = Inl (e, printed st)"
| "folder_pages folder_path (Inr None # pages) st = folder_pages folder_path pages st"
| "folder_pages folder_path (Inr (Some objs) # pages) st =
     folder_pages folder_path pages (foldl (folder_step folder_path) st objs)"

text \<open>\<open>if folder_path and not folder_path.endswith('/'): folder_path += '/'\<close>.\<close>

definition with_slash :: "string \<Rightarrow> string" where
  "with_slash folder_path =
     (if folder_path \<noteq> [] \<and> \<not> endswith folder_path ''/'' then folder_path @ ''/'' else folder_path)"

text \<open>
  \<open>get_folder_size_s3(bucket_name, folder_path)\<close> on the listing the paginator yields:
  the returned tuple and the printed lines. The \<open>except\<close> clause turns an exception of
  the listing into \<open>(folder_path, 0, 0, {})\<close> and an error line. The S3 client itself is
  taken as created.
\<close>

definition get_folder_size_s3 :: "listing \<Rightarrow> string \<Rightarrow> string
    \<Rightarrow> (string \<times> int \<times> int \<times> (string \<times> subfolder_entry) list) \<times> message list" where
  "get_folder_size_s3 pages bucket_name folder_path0 =
     (let folder_path = with_slash folder_path0;
          st0 = \<lparr>total_size = 0, object_count = 0, subfolder_sizes = [],
                 printed = [Analysing bucket_name folder_path]\<rparr>
      in case folder_pages folder_path pages st0 of
           Inr st \<Rightarrow> ((folder_path, total_size st, object_count st, subfolder_sizes st), printed st)
         | Inl (e, out) \<Rightarrow> ((folder_path, 0, 0, []), out @ [FolderError folder_path bucket_name e]))"

text \<open>The objects of a listing that the loops reach: those before the first exception.\<close>

fun listed :: "listing \<Rightarrow> s3_object list" where
  "listed [] = []"
| "listed (Inl e # pages) = []"
| "listed (Inr p # pages) = contents p @ listed pages"

text \<open>Whether iterating the listing raises.\<close>

definition raises :: "listing \<Rightarrow> bool" where
  "raises pages = (\<exists>e. Inl e \<in> set pages)"

text \<open>The listing of the folder-grouping example: one page with four objects.\<close>

definition example_listing :: listing where
  "example_listing =
     [Inr (Some [\<lparr>Key = ''base/a/x.txt'', Size = 10\<rparr>, \<lparr>Key = ''base/a/y.txt'', Size = 5\<rparr>,
                 \<lparr>Key = ''base/b.txt'', Size = 3\<rparr>, \<lparr>Key = ''base/c/z.txt'', Size = 2\<rparr>])]"

text \<open>
  The loop invariant of \<open>get_folder_size_s3\<close>: the entries of the dictionary add up to
  the running totals, and no key occurs twice.
\<close>

definition balanced :: "folder_state \<Rightarrow> bool" where
  "balanced st = (sum_list (map (entry_size \<circ> snd) (subfolder_sizes st)) = total_size st
     \<and> sum_list (map (entry_count \<circ> snd) (subfolder_sizes st)) = object_count st
     \<and> distinct (map fst (subfolder_sizes st)))"

text \<open>
  The dictionary \<open>subs\<close> partitions the objects \<open>objs\<close> by their key: a key is present
  exactly when an object has it, with the summed size and the number of those objects.
\<close>

definition per_key :: "string \<Rightarrow> s3_object list \<Rightarrow> (string \<times> subfolder_entry) list \<Rightarrow> bool" where
  "per_key fp objs subs = (\<forall>k. map_of subs k =
     (if k \<in> (\<lambda>obj. subfolder_key_of fp (Key obj)) ` set objs
      then Some \<lparr>entry_size = sum_list (map Size (filter (\<lambda>obj. subfolder_key_of fp (Key obj) = k) objs)),
                 entry_count = int (length (filter (\<lambda>obj. subfolder_key_of fp (Key obj) = k) objs))\<rparr>
      else None))"

section \<open>Process exit\<close>

text \<open>
  A call returns a value, ends the process with \<open>sys.exit(code)\<close>, or raises an exception
  that no handler of the script catches.
\<close>

datatype 'a result = SysExit int | Returns 'a | Raises error

section \<open>Bucket-name validation (s3\_folder\_sizes.py, s3\_folder\_sizes\_2level.py)\<close>

text \<open>The character class \<open>[a-z0-9.\-_]\<close>.\<close>

definition bucket_char :: "char \<Rightarrow> bool" where
  "bucket_char c = (c \<in> set (''abcdefghijklmnopqrstuvwxyz'' @ ''0123456789'' @ ''.-_''))"

text \<open>\<open>$\<close> without \<open>re.MULTILINE\<close>: at the end of the string, or just before a newline that
  ends the string.\<close>

definition at_dollar :: "string \<Rightarrow> bool" where
  "at_dollar rest = (rest = [] \<or> rest = [CHR 0x0A])"

text \<open>
  \<open>re.match(BUCKET_REGEX, bucket)\<close> for \<open>BUCKET_REGEX = r'^[a-z0-9.\-_]{3,63}$'\<close>: some
  number \<open>n\<close> of repetitions between 3 and 63 consumes \<open>n\<close> characters of the class from
  the start, and \<open>$\<close> matches what is left.
\<close>

definition BUCKET_REGEX :: "string \<Rightarrow> bool" where
  "BUCKET_REGEX s = (\<exists>n \<in> {3..63}. n \<le> length s \<and> (\<forall>c \<in> set (take n s). bucket_char c)
      \<and> at_dollar (drop n s))"

text \<open>The check of the main block: an invalid name prints a line and exits with code 1.\<close>

definition validate_bucket :: "string \<Rightarrow> unit result \<times> message list" where
  "validate_bucket bucket =
     (if \<not> BUCKET_REGEX bucket then (SysExit 1, [InvalidBucket bucket])
      else (Returns (), []))"

text \<open>The names a reader of the pattern expects: 3 to 63 characters of the class.\<close>

definition plain_name :: "string \<Rightarrow> bool" where
  "plain_name core = (3 \<le> length core \<and> length core \<le> 63 \<and> (\<forall>c \<in> set core. bucket_char c))"

section \<open>The AWS CLI path (s3\_bucket\_sizes\_cli.py)\<close>

text \<open>
  What \<open>subprocess.run(cmd, capture_output=True, text=True, timeout=5000)\<close> does: it
  returns a completed process, or raises \<open>TimeoutExpired\<close>, \<open>FileNotFoundError\<close> (no such
  binary) or something else.
\<close>

record completed_process =
  returncode :: int
  stdout :: string
  stderr :: string

datatype run_outcome =
    Completed completed_process
  | TimeoutExpired
  | FileNotFoundError
  | OtherError error

text \<open>
  \<open>\s\<close> in a \<open>str\<close> pattern, and the characters \<open>str.strip()\<close> removes: the whitespace
  among the code points below 256.
\<close>

definition is_space :: "char \<Rightarrow> bool" where
  "is_space c = (c \<in> set [CHR 0x09, CHR 0x0A, CHR 0x0B, CHR 0x0C, CHR 0x0D, CHR 0x1C, CHR 0x1D,
      CHR 0x1E, CHR 0x1F, CHR 0x20, CHR 0x85, CHR 0xA0])"

text \<open>\<open>\d\<close>: the decimal digits among the code points below 256.\<close>

definition is_digit :: "char \<Rightarrow> bool" where
  "is_digit c = (c \<in> set ''0123456789'')"

text \<open>\<open>s.strip()\<close>.\<close>

definition py_strip :: "string \<Rightarrow> string" where
  "py_strip s = rev (dropWhile is_space (rev (dropWhile is_space s)))"

text \<open>\<open>int(digits)\<close> for a non-empty string of decimal digits.\<close>

definition int_of_digits :: "string \<Rightarrow> int" where
  "int_of_digits ds = foldl (\<lambda>n d. 10 * n + (of_char d - 48)) 0 ds"

text \<open>
  The pattern \<open>Total Size:\s+(\d+)\<close> matched at the start of \<open>s\<close>; the result is group 1.
  Both repetitions are greedy, and no whitespace character is a digit, so giving back
  whitespace never helps: the match takes all the whitespace and then all the digits.
\<close>

definition match_total_size :: "string \<Rightarrow> string option" where
  "match_total_size s =
     (if startswith s ''Total Size:'' then
        (let r = drop (length ''Total Size:'') s;
             ws = takeWhile is_space r;
             ds = takeWhile is_digit (dropWhile is_space r)
         in if ws \<noteq> [] \<and> ds \<noteq> [] then Some ds else None)
      else None)"

text \<open>\<open>re.search\<close>: the first position, from the left, at which the pattern matches.\<close>

fun re_search_total_size :: "string \<Rightarrow> string option" where
  "re_search_total_size [] = match_total_size []"
| "re_search_total_size (c # cs) =
     (case match_total_size (c # cs) of
        Some ds \<Rightarrow> Some ds
      | None \<Rightarrow> re_search_total_size cs)"

text \<open>The command line of \<open>get_bucket_size_cli\<close>.\<close>

definition cli_cmd :: "string \<Rightarrow> string list" where
  "cli_cmd bucket_name =
     [''aws'', ''s3'', ''ls'', ''s3://'' @ bucket_name @ ''/'', ''--recursive'', ''--summarize'']"

text \<open>
  \<open>get_bucket_size_cli(bucket_name)\<close>, given what running a command does: the returned
  pair or the exit, and the printed lines.
\<close>

definition get_bucket_size_cli :: "(string list \<Rightarrow> run_outcome) \<Rightarrow> string
    \<Rightarrow> (string \<times> int) result \<times> message list" where
  "get_bucket_size_cli run bucket_name =
     (case run (cli_cmd bucket_name) of
        Completed result \<Rightarrow>
          (if returncode result \<noteq> 0
           then (Returns (bucket_name, 0), [AccessError bucket_name (py_strip (stderr result))])
           else (case re_search_total_size (stdout result) of
                   Some ds \<Rightarrow> (Returns (bucket_name, int_of_digits ds), [])
                 | None \<Rightarrow> (Returns (bucket_name, 0), [])))
      | TimeoutExpired \<Rightarrow> (Returns (bucket_name, 0), [Timeout bucket_name])
      | FileNotFoundError \<Rightarrow> (SysExit 1, [NotInstalled])
      | OtherError e \<Rightarrow> (Returns (bucket_name, 0), [ProcessError bucket_name e]))"

text \<open>
  The summary line as the pattern reads it: \<open>Total Size:\<close>, at least one whitespace
  character, and a digit.
\<close>

definition summary_at :: "string \<Rightarrow> bool" where
  "summary_at s = (\<exists>ws d rest. s = ''Total Size:'' @ ws @ d # rest \<and> ws \<noteq> []
      \<and> list_all is_space ws \<and> is_digit d)"

definition has_summary :: "string \<Rightarrow> bool" where
  "has_summary out = (\<exists>before s. out = before @ s \<and> summary_at s)"

text \<open>
  The search as the comment above it in the source describes it (look for the line
  \<open>Total Size: X bytes\<close>) and as the specification words it, a line matching the pattern:
  the output is read line by line, and the first line in which the pattern matches gives
  the digits. This definition follows those words, not the code.
\<close>

definition spec_total_size_line :: "string \<Rightarrow> string option" where
  "spec_total_size_line out =
     (case filter (\<lambda>line. re_search_total_size line \<noteq> None) (split_chr (CHR 0x0A) out) of
        [] \<Rightarrow> None
      | line # rest \<Rightarrow> re_search_total_size line)"

text \<open>
  What \<open>aws s3 ls s3://docs/ --recursive --summarize\<close> prints for a bucket with the two
  objects \<open>notes Total Size:\<close> (10 bytes) and \<open>report.txt\<close> (20 bytes).
\<close>

definition cli_listing :: string where
  "cli_listing =
     ''2025-03-01 10:00:00         10 notes Total Size:'' @ [CHR 0x0A]
     @ ''2025-03-02 11:30:00         20 report.txt'' @ [CHR 0x0A]
     @ [CHR 0x0A]
     @ ''Total Objects: 2'' @ [CHR 0x0A]
     @ ''   Total Size: 30'' @ [CHR 0x0A]"

section \<open>The CloudWatch path (s3\_bucket\_sizes\_fast.py, s3\_bucket\_sizes\_with\_folder.py)\<close>

text \<open>
  One data point of \<open>get_metric_statistics\<close>. The time stamp is a point in time, counted in
  seconds; the average is a float, and every finite float is a rational number.
\<close>

record datapoint =
  Timestamp :: int
  Average :: rat

text \<open>\<open>int(x)\<close> for a finite float: truncation towards zero.\<close>

definition py_int :: "rat \<Rightarrow> int" where
  "py_int x = (if 0 \<le> x then \<lfloor>x\<rfloor> else \<lceil>x\<rceil>)"

text \<open>
  \<open>max(xs, key=f)\<close> on the non-empty list \<open>x # xs\<close>: the first element with the greatest
  key, found by one pass that replaces the best element only by a strictly greater one.
\<close>

fun py_max_by :: "('a \<Rightarrow> int) \<Rightarrow> 'a \<Rightarrow> 'a list \<Rightarrow> 'a" where
  "py_max_by f best [] = best"
| "py_max_by f best (x # xs) = py_max_by f (if f best < f x then x else best) xs"

text \<open>
  A call of \<open>get_metric_statistics\<close> returns its \<open>'Datapoints'\<close> or raises. Each invocation
  of \<open>get_bucket_size_cloudwatch\<close> creates its own client, and what the client answers to
  the \<open>k\<close>-th call of the invocation, for a bucket name and a storage type, is a parameter
  of the model: nothing is assumed about the service, also not that it answers the same
  question twice alike. Creating the client may raise as well.
\<close>

type_synonym response = "error + datapoint list"
type_synonym cloudwatch = "nat \<Rightarrow> string \<Rightarrow> string \<Rightarrow> response"

definition storage_classes :: "string list" where
  "storage_classes =
     [''StandardStorage'', ''StandardIAStorage'', ''ReducedRedundancyStorage'',
      ''GlacierStorage'', ''DeepArchiveStorage'', ''IntelligentTieringFAStorage'',
      ''IntelligentTieringIAStorage'', ''IntelligentTieringAAStorage'',
      ''IntelligentTieringAIAStorage'', ''IntelligentTieringDAAStorage'']"

text \<open>
  The loop over the storage classes, \<open>k\<close> counting the calls: an exception leaves the
  loop, an empty list of data points leaves the total as it is.
\<close>

fun sum_storage_classes :: "cloudwatch \<Rightarrow> string \<Rightarrow> nat \<Rightarrow> string list \<Rightarrow> int \<Rightarrow> error + int" where
  "sum_storage_classes cw bucket_name k [] tot = Inr tot"
| "sum_storage_classes cw bucket_name k (storage_class # rest) tot =
     (case cw k bucket_name storage_class of
        Inl e \<Rightarrow> Inl e
      | Inr [] \<Rightarrow> sum_storage_classes cw bucket_name (Suc k) rest tot
      | Inr (d # ds) \<Rightarrow>
          sum_storage_classes cw bucket_name (Suc k) rest
            (tot + py_int (Average (py_max_by Timestamp d ds))))"

text \<open>
  \<open>get_bucket_size_cloudwatch(bucket_name)\<close>: the returned pair and the printed lines. The
  \<open>except\<close> clause turns every exception into \<open>(bucket_name, 0)\<close> and a warning.
\<close>

definition get_bucket_size_cloudwatch :: "error + cloudwatch \<Rightarrow> string
    \<Rightarrow> (string \<times> int) \<times> message list" where
  "get_bucket_size_cloudwatch client bucket_name =
     (case client of
        Inl e \<Rightarrow> ((bucket_name, 0), [MetricsWarning bucket_name e])
      | Inr cw \<Rightarrow>
          (case cw 0 bucket_name ''StandardStorage'' of
             Inl e \<Rightarrow> ((bucket_name, 0), [MetricsWarning bucket_name e])
           | Inr (d # ds) \<Rightarrow> ((bucket_name, py_int (Average (py_max_by Timestamp d ds))), [])
           | Inr [] \<Rightarrow>
               (case sum_storage_classes cw bucket_name 1 storage_classes 0 of
                  Inl e \<Rightarrow> ((bucket_name, 0), [MetricsWarning bucket_name e])
                | Inr tot \<Rightarrow> ((bucket_name, tot), []))))"

text \<open>What one storage tier contributes: its latest data point, or 0 when it has none.\<close>

definition latest_size :: "response \<Rightarrow> int" where
  "latest_size r = (case r of Inr (d # ds) \<Rightarrow> py_int (Average (py_max_by Timestamp d ds)) | _ \<Rightarrow> 0)"

text \<open>The calls of the fallback loop: call number and storage type.\<close>

definition fallback_calls :: "(nat \<times> string) list" where
  "fallback_calls = zip [1..<Suc (length storage_classes)] storage_classes"

text \<open>A call that raises.\<close>

definition fails :: "response \<Rightarrow> bool" where
  "fails r = (case r of Inl e \<Rightarrow> True | Inr ds \<Rightarrow> False)"

section \<open>Listing the buckets\<close>

text \<open>\<open>s.lower()\<close> on code points below 256.\<close>

definition lower_chr :: "char \<Rightarrow> char" where
  "lower_chr c =
     (let n = (of_char c :: nat)
      in if (65 \<le> n \<and> n \<le> 90) \<or> (192 \<le> n \<and> n \<le> 222 \<and> n \<noteq> 215) then char_of (n + 32) else c)"

definition lower :: "string \<Rightarrow> string" where
  "lower s = map lower_chr s"

text \<open>
  \<open>re.match(r'.*db-.*', s)\<close>: the dot matches no newline, so \<open>db-\<close> has to occur in the
  first line of \<open>s\<close>.
\<close>

definition match_db :: "string \<Rightarrow> bool" where
  "match_db s = contains_str ''db-'' (takeWhile (\<lambda>c. c \<noteq> CHR 0x0A) s)"

text \<open>The buckets that s3\_bucket\_sizes\_fast.py skips.\<close>

definition skipped :: "string \<Rightarrow> bool" where
  "skipped name =
     (let bucket_name = lower name
      in contains_str ''lifecycle'' bucket_name \<or> contains_str ''logs'' bucket_name
         \<or> match_db bucket_name)"

text \<open>
  \<open>get_all_bucket_names()\<close> of s3\_bucket\_sizes\_fast.py, given what \<open>list_buckets\<close> does:
  it returns the names of the buckets, in the order of the response, or raises (wrong or
  missing credentials, no network).
\<close>

definition get_all_bucket_names :: "error + string list \<Rightarrow> string list \<times> message list" where
  "get_all_bucket_names list_buckets =
     (case list_buckets of
        Inl e \<Rightarrow> ([], [ListError e])
      | Inr names \<Rightarrow> (filter (\<lambda>name. \<not> skipped name) names, []))"

text \<open>
  \<open>get_all_bucket_names()\<close> of s3\_bucket\_sizes\_cli.py; the one of
  s3\_bucket\_sizes\_with\_folder.py, whose filters are commented out, does the same.
\<close>

definition get_all_bucket_names_cli :: "error + string list \<Rightarrow> string list \<times> message list" where
  "get_all_bucket_names_cli list_buckets =
     (case list_buckets of
        Inl e \<Rightarrow> ([], [ListError e])
      | Inr names \<Rightarrow> (names, []))"

section \<open>The parallel run (main of s3\_bucket\_sizes\_fast.py)\<close>

text \<open>
  What one worker meets: the client it creates, and whether printing its progress line
  raises. Workers share nothing else but the lock around that line.
\<close>

record worker =
  client :: "error + cloudwatch"
  print_raises :: "error option"

text \<open>
  \<open>process_bucket_with_progress(args)\<close>: what the future holds in the end, a result or
  an exception, and the lines the worker printed.
\<close>

definition process_bucket_with_progress :: "worker \<Rightarrow> string \<times> nat \<times> nat
    \<Rightarrow> (error + string \<times> int) \<times> message list" where
  "process_bucket_with_progress w args =
     (case args of (bucket_name, bucket_index, total_buckets) \<Rightarrow>
        (case get_bucket_size_cloudwatch (client w) bucket_name of ((name, sz), out) \<Rightarrow>
           (case print_raises w of
              None \<Rightarrow> (Inr (name, sz),
                         out @ [BucketProgress bucket_index total_buckets bucket_name sz])
            | Some e \<Rightarrow> (Inl e, out))))"

text \<open>
  \<open>as_completed(futures)\<close> yields every future once, in the order in which they finish.
  That order is not the program's to decide: \<open>pick\<close> picks, from the number of futures
  still pending, the position of the one that finishes next.
\<close>

function as_completed :: "(nat \<Rightarrow> nat) \<Rightarrow> 'a list \<Rightarrow> 'a list" where
  "as_completed pick [] = []"
| "as_completed pick (f # fs) =
     (let pending = f # fs;
          i = pick (length pending) mod length pending
      in pending ! i # as_completed pick (take i pending @ drop (Suc i) pending))"
  by pat_completeness auto
termination
  by (relation "measure (\<lambda>(pick, pending). length pending)") auto

text \<open>
  One pass of the collecting loop. A future is its bucket (\<open>future_to_bucket[future]\<close>),
  what \<open>future.result()\<close> gives, and the lines its worker printed.
\<close>

definition collect :: "(string \<times> int) list \<times> message list
    \<Rightarrow> string \<times> (error + string \<times> int) \<times> message list
    \<Rightarrow> (string \<times> int) list \<times> message list" where
  "collect acc future =
     (case acc of (bucket_sizes, out) \<Rightarrow>
        (case future of (bucket_name, outcome, printed_by_worker) \<Rightarrow>
           (case outcome of
              Inr (name, sz) \<Rightarrow> (bucket_sizes @ [(name, sz)], out @ printed_by_worker)
            | Inl e \<Rightarrow> (bucket_sizes @ [(bucket_name, 0)],
                        out @ printed_by_worker @ [FutureError bucket_name e]))))"

text \<open>
  The pool: \<open>ThreadPoolExecutor(max_workers=min(20, len(bucket_names)))\<close> raises
  \<open>ValueError\<close> unless \<open>max_workers\<close> is positive; then one future per bucket is submitted
  and the results are collected as they complete.
\<close>

definition fan_out :: "(nat \<Rightarrow> worker) \<Rightarrow> (nat \<Rightarrow> nat) \<Rightarrow> string list
    \<Rightarrow> (error + (string \<times> int) list) \<times> message list" where
  "fan_out workers pick bucket_names =
     (let args_list = map (\<lambda>(i, bucket_name). (bucket_name, i + 1, length bucket_names))
                          (enumerate 0 bucket_names);
          max_workers = min 20 (length bucket_names)
      in if max_workers \<le> 0 then (Inl (SdkError ''max_workers must be greater than 0''), [])
         else
           (let futures = map (\<lambda>(i, args). (fst args, process_bucket_with_progress (workers i) args))
                              (enumerate 0 args_list)
            in case foldl collect ([], []) (as_completed pick futures) of
                 (bucket_sizes, out) \<Rightarrow> (Inr bucket_sizes, out)))"

text \<open>
  \<open>bucket_sizes.sort(key=lambda x: x[1], reverse=True)\<close>: descending by size, and stable,
  elements of equal size keeping their order.
\<close>

definition sort_desc :: "(string \<times> int) list \<Rightarrow> (string \<times> int) list" where
  "sort_desc bucket_sizes = sort_key (\<lambda>x. - snd x) bucket_sizes"

text \<open>The summary both scripts print: one row per bucket, then the total.\<close>

definition summary :: "(string \<times> int) list \<Rightarrow> message list" where
  "summary bucket_sizes = map (\<lambda>(bucket_name, sz). SummaryRow bucket_name sz) bucket_sizes
     @ [Total (sum_list (map snd bucket_sizes))]"

text \<open>
  \<open>main()\<close> of s3\_bucket\_sizes\_fast.py. \<open>sts\<close> is what \<open>get_caller_identity\<close> raises, if
  anything; \<open>list_buckets\<close> what listing the buckets gives.
\<close>

definition main :: "error option \<Rightarrow> error + string list \<Rightarrow> (nat \<Rightarrow> worker) \<Rightarrow> (nat \<Rightarrow> nat)
    \<Rightarrow> unit result \<times> message list" where
  "main sts list_buckets workers pick =
     (case sts of
        Some e \<Rightarrow> (SysExit 1, [CredentialsError e])
      | None \<Rightarrow>
          (case get_all_bucket_names list_buckets of (bucket_names, out1) \<Rightarrow>
             if bucket_names = [] then (Returns (), [CredentialsOk] @ out1 @ [NoBuckets])
             else
               (case fan_out workers pick bucket_names of
                  (Inl e, out2) \<Rightarrow>
                    (Raises e, [CredentialsOk] @ out1 @ [Found (length bucket_names)] @ out2)
                | (Inr bucket_sizes, out2) \<Rightarrow>
                    (Returns (), [CredentialsOk] @ out1 @ [Found (length bucket_names)] @ out2
                       @ summary (sort_desc bucket_sizes)))))"

text \<open>
  What a bucket's row shows: the pair its worker returned, or \<open>(bucket, 0)\<close> when the
  worker raised.
\<close>

definition worker_result :: "worker \<Rightarrow> string \<Rightarrow> string \<times> int" where
  "worker_result w bucket_name =
     (case print_raises w of
        None \<Rightarrow> fst (get_bucket_size_cloudwatch (client w) bucket_name)
      | Some e \<Rightarrow> (bucket_name, 0))"

text \<open>The pair that the collecting loop appends for a future.\<close>

definition future_result :: "string \<times> (error + string \<times> int) \<times> message list \<Rightarrow> string \<times> int" where
  "future_result future =
     (case future of (bucket_name, outcome, printed_by_worker) \<Rightarrow>
        (case outcome of Inr r \<Rightarrow> r | Inl e \<Rightarrow> (bucket_name, 0)))"

text \<open>
  A query of the metrics backend fails for a bucket: the client cannot be created, the
  first call raises, or the first answer is empty and a call of the fallback loop raises.
\<close>

definition query_fails :: "error + cloudwatch \<Rightarrow> string \<Rightarrow> bool" where
  "query_fails c bucket_name =
     (case c of
        Inl e \<Rightarrow> True
      | Inr cw \<Rightarrow>
          fails (cw 0 bucket_name ''StandardStorage'')
          \<or> (cw 0 bucket_name ''StandardStorage'' = Inr []
              \<and> (\<exists>(k, sc) \<in> set fallback_calls. fails (cw k bucket_name sc))))"

section \<open>The sequential run (main of s3\_bucket\_sizes\_cli.py)\<close>

text \<open>\<open>check_aws_cli()\<close>; only \<open>FileNotFoundError\<close> is caught.\<close>

definition check_aws_cli :: "(string list \<Rightarrow> run_outcome) \<Rightarrow> bool result \<times> message list" where
  "check_aws_cli run =
     (case run [''aws'', ''--version''] of
        Completed result \<Rightarrow>
          (if returncode result \<noteq> 0 then (Returns False, [CliUnavailable])
           else (Returns True, [CliVersion (py_strip (stdout result))]))
      | FileNotFoundError \<Rightarrow> (Returns False, [NotInstalled])
      | TimeoutExpired \<Rightarrow> (Raises (SdkError ''TimeoutExpired''), [])
      | OtherError e \<Rightarrow> (Raises e, []))"

text \<open>The loop over the buckets, one after the other; \<open>sys.exit\<close> inside ends it.\<close>

fun cli_loop :: "(string list \<Rightarrow> run_outcome) \<Rightarrow> nat \<Rightarrow> nat \<Rightarrow> string list
    \<Rightarrow> (string \<times> int) list \<Rightarrow> message list \<Rightarrow> (string \<times> int) list result \<times> message list" where
  "cli_loop run i n [] bucket_sizes out = (Returns bucket_sizes, out)"
| "cli_loop run i n (bucket_name # rest) bucket_sizes out =
     (case get_bucket_size_cli run bucket_name of
        (Returns (name, sz), printed_by_call) \<Rightarrow>
          cli_loop run (Suc i) n rest (bucket_sizes @ [(name, sz)])
            (out @ printed_by_call @ [CliProgress i n bucket_name sz])
      | (SysExit code, printed_by_call) \<Rightarrow> (SysExit code, out @ printed_by_call)
      | (Raises e, printed_by_call) \<Rightarrow> (Raises e, out @ printed_by_call))"

definition main_cli :: "(string list \<Rightarrow> run_outcome) \<Rightarrow> error + string list
    \<Rightarrow> unit result \<times> message list" where
  "main_cli run list_buckets =
     (case check_aws_cli run of
        (Raises e, out0) \<Rightarrow> (Raises e, out0)
      | (SysExit code, out0) \<Rightarrow> (SysExit code, out0)
      | (Returns False, out0) \<Rightarrow> (SysExit 1, out0)
      | (Returns True, out0) \<Rightarrow>
          (case get_all_bucket_names_cli list_buckets of (bucket_names, out1) \<Rightarrow>
             if bucket_names = [] then (Returns (), out0 @ out1 @ [NoBuckets])
             else
               (case cli_loop run 1 (length bucket_names) bucket_names [] [] of
                  (Returns bucket_sizes, out2) \<Rightarrow>
                    (Returns (), out0 @ out1 @ [Found (length bucket_names)] @ out2
                       @ summary (sort_desc bucket_sizes))
                | (SysExit code, out2) \<Rightarrow>
                    (SysExit code, out0 @ out1 @ [Found (length bucket_names)] @ out2)
                | (Raises e, out2) \<Rightarrow>
                    (Raises e, out0 @ out1 @ [Found (length bucket_names)] @ out2))))"

section \<open>Output formatting (format\_size)\<close>

text \<open>\<open>n.bit_length()\<close> for a natural number.\<close>

function bit_length :: "nat \<Rightarrow> nat" where
  "bit_length n = (if n = 0 then 0 else Suc (bit_length (n div 2)))"
  by pat_completeness auto
termination
  by (relation "measure (\<lambda>n. n)") auto

text \<open>
  \<open>float(i)\<close> for a Python integer: the nearest float, a tie going to the even
  significand of 53 bits; \<open>OverflowError\<close> (here \<open>None\<close>) when that is beyond the greatest
  float. A finite float is a rational number, and so is the result.
\<close>

definition py_float :: "int \<Rightarrow> rat option" where
  "py_float i =
     (let n = nat \<bar>i\<bar>;
          shift = bit_length n - 53;
          q = n div 2 ^ shift;
          r = n mod 2 ^ shift;
          q' = (if 2 ^ shift < 2 * r \<or> (2 * r = 2 ^ shift \<and> odd q) then q + 1 else q);
          m = q' * 2 ^ shift
      in if (2::nat) ^ 1024 \<le> m then None else Some (of_int (sgn i) * of_nat m))"

text \<open>\<open>str(i)\<close> for an integer.\<close>

definition digit_chr :: "nat \<Rightarrow> char" where
  "digit_chr d = ''0123456789'' ! d"

function str_nat :: "nat \<Rightarrow> string" where
  "str_nat n = (if n < 10 then [digit_chr n] else str_nat (n div 10) @ [digit_chr (n mod 10)])"
  by pat_completeness auto
termination
  by (relation "measure (\<lambda>n. n)") auto

definition str_int :: "int \<Rightarrow> string" where
  "str_int i = (if i < 0 then ''-'' @ str_nat (nat (- i)) else str_nat (nat i))"

text \<open>
  \<open>f"{x:.2f}"\<close>: the float, which is a rational number, is rounded to the nearest multiple
  of a hundredth, a tie going to the even one. \<open>hundredths x\<close> is the displayed number
  times 100, without its sign.
\<close>

definition round_half_even :: "rat \<Rightarrow> int" where
  "round_half_even y =
     (let f = \<lfloor>y\<rfloor>; d = y - of_int f
      in if d < 1 / 2 then f else if 1 / 2 < d then f + 1 else if even f then f else f + 1)"

definition hundredths :: "rat \<Rightarrow> int" where
  "hundredths x = round_half_even (\<bar>x\<bar> * 100)"

definition fmt_2f :: "rat \<Rightarrow> string" where
  "fmt_2f x =
     (let h = nat (hundredths x)
      in (if x < 0 then ''-'' else []) @ str_nat (h div 100) @ ''.''
           @ [digit_chr (h mod 100 div 10), digit_chr (h mod 10)])"

text \<open>
  The loop \<open>while size >= 1024 and unit_index < len(units) - 1\<close>. Dividing a float that is
  at least 1024 by 1024 is exact.
\<close>

function format_loop :: "string list \<Rightarrow> rat \<Rightarrow> nat \<Rightarrow> rat \<times> nat" where
  "format_loop units sz unit_index =
     (if 1024 \<le> sz \<and> int unit_index < int (length units) - 1
      then format_loop units (sz / 1024) (unit_index + 1)
      else (sz, unit_index))"
  by pat_completeness auto
termination
  by (relation "measure (\<lambda>(units, sz, unit_index). length units - unit_index)") auto

text \<open>The body that the three copies of \<open>format_size\<close> share; they differ in \<open>units\<close>.\<close>

definition format_size_with :: "string list \<Rightarrow> int \<Rightarrow> error + string" where
  "format_size_with units size_bytes =
     (if size_bytes = 0 then Inr ''0 B''
      else
        (case py_float size_bytes of
           None \<Rightarrow> Inl OverflowError
         | Some sz0 \<Rightarrow>
             (case format_loop units sz0 0 of (sz, unit_index) \<Rightarrow>
                if unit_index = 0 then Inr (str_int (py_int sz) @ '' '' @ units ! unit_index)
                else Inr (fmt_2f sz @ '' '' @ units ! unit_index))))"

text \<open>\<open>format_size\<close> of s3\_bucket\_sizes\_fast.py and s3\_bucket\_sizes\_with\_folder.py.\<close>

definition format_size :: "int \<Rightarrow> error + string" where
  "format_size size_bytes
     = format_size_with [''B'', ''KB'', ''MB'', ''GB'', ''TB'', ''PB''] size_bytes"

text \<open>\<open>format_size\<close> of s3\_bucket\_sizes\_cli.py.\<close>

definition format_size_cli :: "int \<Rightarrow> error + string" where
  "format_size_cli size_bytes = format_size_with [''B'', ''KB'', ''MB'', ''GB'', ''TB''] size_bytes"

section \<open>Properties of the string functions\<close>

lemma split_chr_nonempty: "split_chr sep s \<noteq> []"
  by (induction s) auto

lemma split_chr_length_one: "(length (split_chr sep s) = 1) = (sep \<notin> set s)"
proof (induction s)
  case Nil
  show ?case by simp
next
  case (Cons c cs)
  have ne: "split_chr sep cs \<noteq> []" by (rule split_chr_nonempty)
  then have "length (tl (split_chr sep cs)) + 1 = length (split_chr sep cs)"
    by (cases "split_chr sep cs") auto
  with Cons ne show ?case by auto
qed

lemma join_take_one: "parts \<noteq> [] \<Longrightarrow> join_str sep (py_take 1 parts) = hd parts"
  by (cases parts) (auto simp: py_take_def)

lemma folder_key_depth_one: "folder_key_depth 1 pfx key = folder_key pfx key"
proof (cases "CHR ''/'' \<in> set (strip_prefix pfx key)")
  case True
  then have "length (split_chr CHR ''/'' (strip_prefix pfx key)) \<noteq> 1"
    using split_chr_length_one by blast
  with True show ?thesis
    unfolding folder_key_depth_def folder_key_def Let_def
    using join_take_one [OF split_chr_nonempty] by simp
next
  case False
  then have "length (split_chr CHR ''/'' (strip_prefix pfx key)) = 1"
    using split_chr_length_one by blast
  with False show ?thesis
    unfolding folder_key_depth_def folder_key_def Let_def by simp
qed

section \<open>The folder dictionaries partition the objects\<close>


lemma entry_add_keys: "fst ` set (entry_add d k v) = insert k (fst ` set d)"
  by (induction d k v rule: entry_add.induct) auto

lemma entry_add_distinct: "distinct (map fst d) \<Longrightarrow> distinct (map fst (entry_add d k v))"
  by (induction d k v rule: entry_add.induct) (auto simp: entry_add_keys)

lemma entry_add_size:
  "sum_list (map (entry_size \<circ> snd) (entry_add d k v)) = sum_list (map (entry_size \<circ> snd) d) + v"
  by (induction d k v rule: entry_add.induct) auto

lemma entry_add_count:
  "sum_list (map (entry_count \<circ> snd) (entry_add d k v)) = sum_list (map (entry_count \<circ> snd) d) + 1"
  by (induction d k v rule: entry_add.induct) auto

lemma folder_step_balanced: "balanced st \<Longrightarrow> balanced (folder_step fp st obj)"
  by (simp add: balanced_def folder_step_def Let_def entry_add_size entry_add_count entry_add_distinct)

lemma foldl_step_balanced: "balanced st \<Longrightarrow> balanced (foldl (folder_step fp) st objs)"
  by (induction objs arbitrary: st) (simp_all add: folder_step_balanced)

lemma folder_pages_balanced:
  "balanced st \<Longrightarrow> folder_pages fp pages st = Inr st' \<Longrightarrow> balanced st'"
  by (induction fp pages st rule: folder_pages.induct) (simp_all add: foldl_step_balanced)

lemma foldl_step_totals:
  "total_size (foldl (folder_step fp) st objs) = total_size st + sum_list (map Size objs)
   \<and> object_count (foldl (folder_step fp) st objs) = object_count st + int (length objs)"
  by (induction objs arbitrary: st) (simp_all add: folder_step_def Let_def)

lemma folder_pages_totals:
  "folder_pages fp pages st = Inr st' \<Longrightarrow>
     total_size st' = total_size st + sum_list (map Size (listed pages))
   \<and> object_count st' = object_count st + int (length (listed pages))"
  by (induction fp pages st rule: folder_pages.induct) (auto simp: foldl_step_totals contents_def)

lemma folder_pages_raises:
  "(\<exists>x. folder_pages fp pages st = Inl x) = raises pages"
  unfolding raises_def
  by (induction fp pages st rule: folder_pages.induct) auto



lemma entry_add_map_of:
  "map_of (entry_add d k v) =
     (map_of d)(k \<mapsto> \<lparr>entry_size = (case map_of d k of None \<Rightarrow> 0 | Some e \<Rightarrow> entry_size e) + v,
                        entry_count = (case map_of d k of None \<Rightarrow> 0 | Some e \<Rightarrow> entry_count e) + 1\<rparr>)"
  by (induction d k v rule: entry_add.induct) (auto simp: fun_eq_iff)

lemma filter_key_empty: "k \<notin> f ` set xs \<Longrightarrow> filter (\<lambda>x. f x = k) xs = []"
  by (induction xs) auto

lemma folder_step_per_key:
  assumes "per_key fp seen (subfolder_sizes st)"
  shows "per_key fp (seen @ [obj]) (subfolder_sizes (folder_step fp st obj))"
  using assms unfolding per_key_def folder_step_def Let_def
  by (auto simp: entry_add_map_of filter_key_empty)

lemma foldl_step_per_key:
  "per_key fp seen (subfolder_sizes st) \<Longrightarrow>
   per_key fp (seen @ objs) (subfolder_sizes (foldl (folder_step fp) st objs))"
proof (induction objs arbitrary: st seen)
  case Nil
  then show ?case by simp
next
  case (Cons obj objs)
  from Cons.IH [OF folder_step_per_key [OF Cons.prems, of obj]]
  show ?case by simp
qed

lemma folder_pages_per_key:
  "per_key fp seen (subfolder_sizes st) \<Longrightarrow> folder_pages fp pages st = Inr st' \<Longrightarrow>
   per_key fp (seen @ listed pages) (subfolder_sizes st')"
proof (induction fp pages st arbitrary: seen rule: folder_pages.induct)
  case (1 fp st)
  then show ?case by simp
next
  case (2 fp e pages st)
  then show ?case by simp
next
  case (3 fp pages st)
  then show ?case by (simp add: contents_def)
next
  case (4 fp objs pages st)
  from "4.IH" [OF foldl_step_per_key [OF "4.prems"(1), of objs]] "4.prems"(2)
  show ?case by (simp add: contents_def)
qed

lemma dict_add_keys: "fst ` set (dict_add d k v) = insert k (fst ` set d)"
  by (induction d k v rule: dict_add.induct) auto

lemma dict_add_distinct: "distinct (map fst d) \<Longrightarrow> distinct (map fst (dict_add d k v))"
  by (induction d k v rule: dict_add.induct) (auto simp: dict_add_keys)

lemma dict_add_sum: "sum_list (map snd (dict_add d k v)) = sum_list (map snd d) + v"
  by (induction d k v rule: dict_add.induct) auto

lemma foldl_dict_add:
  "distinct (map fst d) \<Longrightarrow>
   distinct (map fst (foldl (\<lambda>d obj. dict_add d (f (Key obj)) (Size obj)) d objs))
   \<and> sum_list (map snd (foldl (\<lambda>d obj. dict_add d (f (Key obj)) (Size obj)) d objs))
       = sum_list (map snd d) + sum_list (map Size objs)"
  by (induction objs arbitrary: d) (simp_all add: dict_add_distinct dict_add_sum)

lemma group_pages_sum:
  "distinct (map fst d) \<Longrightarrow> group_pages f pages d = Inr d' \<Longrightarrow>
   distinct (map fst d') \<and> sum_list (map snd d') = sum_list (map snd d) + sum_list (map Size (listed pages))"
proof (induction f pages d rule: group_pages.induct)
  case (1 f folder_sizes)
  then show ?case by simp
next
  case (2 f e pages folder_sizes)
  then show ?case by simp
next
  case (3 f p pages folder_sizes)
  from foldl_dict_add [OF "3.prems"(1), of f "contents p"] "3.IH" "3.prems"(2)
  show ?case by simp
qed

lemma group_pages_raises: "(\<exists>e. group_pages f pages d = Inl e) = raises pages"
  unfolding raises_def
  by (induction f pages d rule: group_pages.induct) auto

text \<open>
  C3. For every listing, the tuple \<open>get_folder_size_s3\<close> returns is balanced: the sizes of
  its dictionary add up to the reported total size, the object counts add up to the
  reported object count, and no key occurs twice. When the listing does not raise, the
  totals are those of the listed objects and every object is counted under exactly one
  key, its own (\<open>per_key\<close>). The dictionary of \<open>get_s3_folder_sizes\<close>, which reports no
  total, adds up to the size of the listed objects.
\<close>

theorem folder_sizes_partition:
  "(case get_folder_size_s3 pages bucket_name folder_path of ((fp, tot, cnt, subs), out) \<Rightarrow>
       sum_list (map (entry_size \<circ> snd) subs) = tot
     \<and> sum_list (map (entry_count \<circ> snd) subs) = cnt
     \<and> distinct (map fst subs)
     \<and> (\<not> raises pages \<longrightarrow>
          tot = sum_list (map Size (listed pages)) \<and> cnt = int (length (listed pages))
          \<and> per_key fp (listed pages) subs))
   \<and> (case get_s3_folder_sizes pages pfx of
         Inl e \<Rightarrow> raises pages
       | Inr d \<Rightarrow> \<not> raises pages \<and> distinct (map fst d)
           \<and> sum_list (map snd d) = sum_list (map Size (listed pages)))"
proof
  define st0 where "st0 = \<lparr>total_size = 0, object_count = 0, subfolder_sizes = [],
      printed = [Analysing bucket_name (with_slash folder_path)]\<rparr>"
  have b0: "balanced st0" by (simp add: st0_def balanced_def)
  have p0: "per_key (with_slash folder_path) [] (subfolder_sizes st0)"
    by (simp add: st0_def per_key_def)
  show "case get_folder_size_s3 pages bucket_name folder_path of ((fp, tot, cnt, subs), out) \<Rightarrow>
       sum_list (map (entry_size \<circ> snd) subs) = tot
     \<and> sum_list (map (entry_count \<circ> snd) subs) = cnt
     \<and> distinct (map fst subs)
     \<and> (\<not> raises pages \<longrightarrow>
          tot = sum_list (map Size (listed pages)) \<and> cnt = int (length (listed pages))
          \<and> per_key fp (listed pages) subs)"
  proof (cases "folder_pages (with_slash folder_path) pages st0")
    case (Inl x)
    then have "raises pages" using folder_pages_raises by blast
    with Inl show ?thesis
      by (cases x) (simp add: get_folder_size_s3_def Let_def st0_def)
  next
    case (Inr st)
    from folder_pages_balanced [OF b0 Inr] have "balanced st" .
    moreover from folder_pages_totals [OF Inr]
    have "total_size st = sum_list (map Size (listed pages))"
      and "object_count st = int (length (listed pages))"
      by (simp_all add: st0_def)
    moreover from folder_pages_per_key [OF p0 Inr]
    have "per_key (with_slash folder_path) (listed pages) (subfolder_sizes st)" by simp
    ultimately show ?thesis using Inr
      by (simp add: get_folder_size_s3_def Let_def st0_def balanced_def)
  qed
next
  show "case get_s3_folder_sizes pages pfx of
         Inl e \<Rightarrow> raises pages
       | Inr d \<Rightarrow> \<not> raises pages \<and> distinct (map fst d)
           \<and> sum_list (map snd d) = sum_list (map Size (listed pages))"
  proof (cases "get_s3_folder_sizes pages pfx")
    case (Inl e)
    then show ?thesis using group_pages_raises [of "folder_key pfx" pages "[]"]
      by (auto simp: get_s3_folder_sizes_def)
  next
    case (Inr d)
    then have g: "group_pages (folder_key pfx) pages [] = Inr d"
      by (simp add: get_s3_folder_sizes_def)
    then have "\<not> raises pages" using group_pages_raises [of "folder_key pfx" pages "[]"] by auto
    with group_pages_sum [OF _ g] Inr show ?thesis by simp
  qed
qed

theorem folder_sizes_partition_witness:
  "\<not> raises example_listing
   \<and> (case get_folder_size_s3 example_listing ''b'' ''base/'' of ((fp, tot, cnt, subs), out) \<Rightarrow>
        tot = 20 \<and> cnt = 4
      \<and> sum_list (map (entry_size \<circ> snd) subs) = 20
      \<and> sum_list (map (entry_count \<circ> snd) subs) = 4
      \<and> per_key fp (listed example_listing) subs)"
proof -
  have nr: "\<not> raises example_listing"
    by (simp add: raises_def example_listing_def)
  have l: "sum_list (map Size (listed example_listing)) = 20"
      "int (length (listed example_listing)) = 4"
    by (simp_all add: example_listing_def contents_def)
  from folder_sizes_partition [of example_listing "''b''" "''base/''" "''base/''"] nr l
  show ?thesis by (auto split: prod.splits)
qed

section \<open>The folder-grouping example\<close>

text \<open>
  C2 (as amended). On the listing with the objects \<open>base/a/x.txt\<close> (10), \<open>base/a/y.txt\<close> (5),
  \<open>base/b.txt\<close> (3) and \<open>base/c/z.txt\<close> (2) and the prefix \<open>base/\<close>, \<open>get_folder_size_s3\<close>
  returns the total 20, the object count 4 and the dictionary
  \<open>{'base/a/': (15, 2), 'base/(archivos directos)': (3, 1), 'base/c/': (2, 1)}\<close>, and
  \<open>get_s3_folder_sizes\<close> returns \<open>{'a': 15, '(root)': 3, 'c': 2}\<close>.
\<close>

theorem example_grouping:
  "get_folder_size_s3 example_listing ''b'' ''base/'' =
     ((''base/'', 20, 4,
       [(''base/a/'', \<lparr>entry_size = 15, entry_count = 2\<rparr>),
        (''base/(archivos directos)'', \<lparr>entry_size = 3, entry_count = 1\<rparr>),
        (''base/c/'', \<lparr>entry_size = 2, entry_count = 1\<rparr>)]),
      [Analysing ''b'' ''base/''])
   \<and> get_s3_folder_sizes example_listing ''base/'' = Inr [(''a'', 15), (''(root)'', 3), (''c'', 2)]"
  by code_simp

text \<open>
  The dictionary the claim gives, \<open>{'a': 15, '(direct files)': 3, 'c': 2}\<close>, is returned by
  neither function: the first keys its entries by the full path and names the sentinel
  \<open>(archivos directos)\<close>, the second names it \<open>(root)\<close>.
\<close>

theorem example_grouping_counterexample:
  "(case get_folder_size_s3 example_listing ''b'' ''base/'' of ((fp, tot, cnt, subs), out) \<Rightarrow>
      map_of (map (\<lambda>(k, e). (k, entry_size e)) subs))
     \<noteq> [''a'' \<mapsto> 15, ''(direct files)'' \<mapsto> 3, ''c'' \<mapsto> 2]
   \<and> (case get_s3_folder_sizes example_listing ''base/'' of Inl e \<Rightarrow> Map.empty | Inr d \<Rightarrow> map_of d)
     \<noteq> [''a'' \<mapsto> 15, ''(direct files)'' \<mapsto> 3, ''c'' \<mapsto> 2]"
proof -
  have a: "get_folder_size_s3 example_listing ''b'' ''base/'' =
     ((''base/'', 20, 4,
       [(''base/a/'', \<lparr>entry_size = 15, entry_count = 2\<rparr>),
        (''base/(archivos directos)'', \<lparr>entry_size = 3, entry_count = 1\<rparr>),
        (''base/c/'', \<lparr>entry_size = 2, entry_count = 1\<rparr>)]),
      [Analysing ''b'' ''base/''])"
    by code_simp
  have b: "get_s3_folder_sizes example_listing ''base/'' = Inr [(''a'', 15), (''(root)'', 3), (''c'', 2)]"
    by code_simp
  have "map_of [(''base/a/'', 15::int), (''base/(archivos directos)'', 3), (''base/c/'', 2)] ''a''
        \<noteq> [''a'' \<mapsto> 15::int, ''(direct files)'' \<mapsto> 3, ''c'' \<mapsto> 2] ''a''"
    by simp
  then have c: "map_of [(''base/a/'', 15::int), (''base/(archivos directos)'', 3), (''base/c/'', 2)]
        \<noteq> [''a'' \<mapsto> 15, ''(direct files)'' \<mapsto> 3, ''c'' \<mapsto> 2]"
    by metis
  have "map_of [(''a'', 15::int), (''(root)'', 3), (''c'', 2)] ''(root)''
        \<noteq> [''a'' \<mapsto> 15::int, ''(direct files)'' \<mapsto> 3, ''c'' \<mapsto> 2] ''(root)''"
    by simp
  then have d: "map_of [(''a'', 15::int), (''(root)'', 3), (''c'', 2)]
        \<noteq> [''a'' \<mapsto> 15, ''(direct files)'' \<mapsto> 3, ''c'' \<mapsto> 2]"
    by metis
  show ?thesis using c d by (simp add: a b)
qed

section \<open>The two grouping scripts agree at depth 1\<close>

text \<open>
  C10. For every listing and prefix, \<open>get_s3_folder_sizes\<close> of s3\_folder\_sizes.py returns
  exactly the dictionary that \<open>get_s3_folder_sizes\<close> of s3\_folder\_sizes\_2level.py returns
  for \<open>depth = 1\<close>: the same keys (the first path segment, or \<open>(root)\<close> for a key with no
  further separator), in the same insertion order, with the same summed sizes; and the
  one raises exactly when the other does.
\<close>

theorem get_s3_folder_sizes_depth_one:
  "get_s3_folder_sizes_2level pages pfx 1 = get_s3_folder_sizes pages pfx"
proof -
  have "folder_key_depth 1 pfx = folder_key pfx"
    by (rule ext) (rule folder_key_depth_one)
  then show ?thesis
    by (simp add: get_s3_folder_sizes_2level_def get_s3_folder_sizes_def)
qed

section \<open>Bucket-name validation\<close>

lemma bucket_regex_iff:
  "BUCKET_REGEX b = (\<exists>core. (b = core \<or> b = core @ [CHR 0x0A]) \<and> plain_name core)"
proof
  assume "BUCKET_REGEX b"
  then obtain n where n: "3 \<le> n" "n \<le> 63" "n \<le> length b" "\<forall>c \<in> set (take n b). bucket_char c"
      "at_dollar (drop n b)"
    by (auto simp: BUCKET_REGEX_def)
  have "b = take n b @ drop n b" by simp
  with n(5) have "b = take n b \<or> b = take n b @ [CHR 0x0A]"
    unfolding at_dollar_def by (metis append_Nil2)
  moreover have "length (take n b) = n" using n(3) by simp
  ultimately show "\<exists>core. (b = core \<or> b = core @ [CHR 0x0A]) \<and> plain_name core"
    using n(1,2,4) unfolding plain_name_def by (intro exI [of _ "take n b"]) simp
next
  assume "\<exists>core. (b = core \<or> b = core @ [CHR 0x0A]) \<and> plain_name core"
  then obtain core where c: "b = core \<or> b = core @ [CHR 0x0A]" "3 \<le> length core" "length core \<le> 63"
      "\<forall>c \<in> set core. bucket_char c"
    unfolding plain_name_def by blast
  from c(1) have "take (length core) b = core" "at_dollar (drop (length core) b)" "length core \<le> length b"
    by (auto simp: at_dollar_def)
  with c(2,3,4) show "BUCKET_REGEX b"
    unfolding BUCKET_REGEX_def by (intro bexI [of _ "length core"]) auto
qed

lemma bucket_regex_first: "\<not> bucket_char c \<Longrightarrow> \<not> BUCKET_REGEX (c # cs)"
  by (auto simp: BUCKET_REGEX_def take_Cons')

lemma valid_example: "plain_name ''valid-bucket.name_123''"
  by (simp add: plain_name_def bucket_char_def)

lemma invalid_example: "\<not> bucket_char CHR ''A''"
  by (simp add: bucket_char_def)

text \<open>
  C9. Validation accepts a bucket name exactly when it matches the pattern
  \<open>^[a-z0-9.\-_]{3,63}$\<close>, that is when it is 3 to 63 characters of the class, possibly
  followed by one final newline (which \<open>$\<close> lets pass); every other name exits with
  code 1. \<open>AB_invalid_UPPER!\<close> is rejected and \<open>valid-bucket.name_123\<close> is accepted.
\<close>

theorem bucket_validation:
  "validate_bucket b =
     (if \<exists>core. (b = core \<or> b = core @ [CHR 0x0A]) \<and> plain_name core
      then (Returns (), []) else (SysExit 1, [InvalidBucket b]))
   \<and> validate_bucket ''AB_invalid_UPPER!'' = (SysExit 1, [InvalidBucket ''AB_invalid_UPPER!''])
   \<and> validate_bucket ''valid-bucket.name_123'' = (Returns (), [])"
proof (intro conjI)
  show "validate_bucket b =
     (if \<exists>core. (b = core \<or> b = core @ [CHR 0x0A]) \<and> plain_name core
      then (Returns (), []) else (SysExit 1, [InvalidBucket b]))"
    using bucket_regex_iff [of b] by (simp add: validate_bucket_def)
  show "validate_bucket ''AB_invalid_UPPER!'' = (SysExit 1, [InvalidBucket ''AB_invalid_UPPER!''])"
    using bucket_regex_first [OF invalid_example] by (simp add: validate_bucket_def)
  have "BUCKET_REGEX ''valid-bucket.name_123''"
    using valid_example bucket_regex_iff by blast
  then show "validate_bucket ''valid-bucket.name_123'' = (Returns (), [])"
    by (simp add: validate_bucket_def)
qed

theorem bucket_validation_witness:
  "validate_bucket ''abc'' = (Returns (), [])
   \<and> validate_bucket (''abc'' @ [CHR 0x0A]) = (Returns (), [])
   \<and> validate_bucket ''ab'' = (SysExit 1, [InvalidBucket ''ab''])"
proof -
  have p: "plain_name ''abc''" by (simp add: plain_name_def bucket_char_def)
  have a: "\<exists>core. (''abc'' = core \<or> ''abc'' = core @ [CHR 0x0A]) \<and> plain_name core"
    using p by blast
  have b: "\<exists>core. (''abc'' @ [CHR 0x0A] = core \<or> ''abc'' @ [CHR 0x0A] = core @ [CHR 0x0A]) \<and> plain_name core"
    using p by blast
  have c: "\<not> (\<exists>core. (''ab'' = core \<or> ''ab'' = core @ [CHR 0x0A]) \<and> plain_name core)"
    by (auto simp: plain_name_def)
  from bucket_validation [of "''abc''"] a have 1: "validate_bucket ''abc'' = (Returns (), [])"
    by simp
  from bucket_validation [of "''abc'' @ [CHR 0x0A]"] b
  have 2: "validate_bucket (''abc'' @ [CHR 0x0A]) = (Returns (), [])"
    by simp
  from bucket_validation [of "''ab''"] c have 3: "validate_bucket ''ab'' = (SysExit 1, [InvalidBucket ''ab''])"
    by simp
  from 1 2 3 show ?thesis by blast
qed

section \<open>The AWS CLI path\<close>

lemma digit_not_space: "is_digit d \<Longrightarrow> \<not> is_space d"
  by (auto simp: is_digit_def is_space_def)

lemma match_total_size_Some: "(\<exists>ds. match_total_size s = Some ds) = summary_at s"
proof
  assume "\<exists>ds. match_total_size s = Some ds"
  then obtain ds where m: "match_total_size s = Some ds" by blast
  define r where "r = drop (length ''Total Size:'') s"
  from m have st: "startswith s ''Total Size:''"
    by (auto simp: match_total_size_def split: if_splits)
  with m have ws: "takeWhile is_space r \<noteq> []" and ds: "takeWhile is_digit (dropWhile is_space r) \<noteq> []"
    by (auto simp: match_total_size_def Let_def r_def split: if_splits)
  from ds obtain d rest where dr: "dropWhile is_space r = d # rest" and d: "is_digit d"
    by (cases "dropWhile is_space r") (auto split: if_splits)
  have "s = take (length ''Total Size:'') s @ r" by (simp add: r_def)
  also have "take (length ''Total Size:'') s = ''Total Size:''"
    using st by (simp add: startswith_def)
  also have "r = takeWhile is_space r @ dropWhile is_space r" by simp
  finally have "s = ''Total Size:'' @ takeWhile is_space r @ d # rest" using dr by simp
  moreover have "list_all is_space (takeWhile is_space r)"
    by (simp add: list_all_iff) (meson set_takeWhileD)
  ultimately show "summary_at s" using ws d unfolding summary_at_def by blast
next
  assume "summary_at s"
  then obtain ws d rest where s: "s = ''Total Size:'' @ ws @ d # rest" and ws: "ws \<noteq> []"
      and sp: "list_all is_space ws" and d: "is_digit d"
    unfolding summary_at_def by blast
  from sp d have tw: "takeWhile is_space (ws @ d # rest) = ws"
      and dw: "dropWhile is_space (ws @ d # rest) = d # rest"
    by (simp_all add: list_all_iff takeWhile_append2 dropWhile_append2 digit_not_space)
  have st: "startswith s ''Total Size:''" by (simp add: s startswith_def)
  have dr: "drop (length ''Total Size:'') s = ws @ d # rest" by (simp add: s)
  show "\<exists>ds. match_total_size s = Some ds"
    unfolding match_total_size_def Let_def using st ws d by (simp only: dr tw dw) simp
qed

lemma has_summary_Nil: "has_summary [] = summary_at []"
  by (auto simp: has_summary_def)

lemma has_summary_Cons: "has_summary (c # cs) = (summary_at (c # cs) \<or> has_summary cs)"
proof
  assume "has_summary (c # cs)"
  then obtain before s where o: "c # cs = before @ s" and s: "summary_at s"
    unfolding has_summary_def by blast
  show "summary_at (c # cs) \<or> has_summary cs"
  proof (cases before)
    case Nil
    with o s show ?thesis by simp
  next
    case (Cons b bs)
    with o have "cs = bs @ s" by simp
    with s show ?thesis unfolding has_summary_def by blast
  qed
next
  assume "summary_at (c # cs) \<or> has_summary cs"
  then show "has_summary (c # cs)"
  proof
    assume "summary_at (c # cs)"
    then show ?thesis unfolding has_summary_def by (metis append_Nil)
  next
    assume "has_summary cs"
    then obtain before s where "cs = before @ s" "summary_at s"
      unfolding has_summary_def by blast
    then have "c # cs = (c # before) @ s" by simp
    with \<open>summary_at s\<close> show ?thesis unfolding has_summary_def by blast
  qed
qed

lemma re_search_total_size_Some: "(\<exists>ds. re_search_total_size out = Some ds) = has_summary out"
proof (induction out)
  case Nil
  show ?case using match_total_size_Some [of "[]"] by (simp add: has_summary_Nil)
next
  case (Cons c cs)
  show ?case
  proof (cases "match_total_size (c # cs)")
    case None
    then have "\<not> summary_at (c # cs)" using match_total_size_Some [of "c # cs"] by simp
    with None Cons show ?thesis by (simp add: has_summary_Cons)
  next
    case (Some ds)
    then have "summary_at (c # cs)" using match_total_size_Some [of "c # cs"] by auto
    with Some show ?thesis by (simp add: has_summary_Cons)
  qed
qed

lemma re_search_total_size_None: "(re_search_total_size out = None) = (\<not> has_summary out)"
  using re_search_total_size_Some [of out] by auto

lemma match_total_size_digits:
  "match_total_size s = Some ds \<Longrightarrow> ds \<noteq> [] \<and> list_all is_digit ds"
  by (auto simp: match_total_size_def Let_def list_all_iff split: if_splits dest: set_takeWhileD)

lemma re_search_total_size_digits:
  "re_search_total_size out = Some ds \<Longrightarrow> ds \<noteq> [] \<and> list_all is_digit ds"
  by (induction out) (auto split: option.splits dest: match_total_size_digits)

lemma int_of_digits_nonneg_aux:
  "list_all is_digit ds \<Longrightarrow> 0 \<le> n \<Longrightarrow> 0 \<le> foldl (\<lambda>n d. 10 * n + (of_char d - 48)) (n::int) ds"
proof (induction ds arbitrary: n)
  case Nil
  then show ?case by simp
next
  case (Cons d ds)
  from Cons.prems have "is_digit d" by simp
  then have "(0::int) \<le> of_char d - 48" by (auto simp: is_digit_def)
  with Cons.prems have "0 \<le> 10 * n + (of_char d - 48)" by simp
  with Cons show ?case by simp
qed

lemma int_of_digits_nonneg: "list_all is_digit ds \<Longrightarrow> 0 \<le> int_of_digits ds"
  unfolding int_of_digits_def by (rule int_of_digits_nonneg_aux) simp_all


text \<open>
  \<open>get_bucket_size_cli\<close> runs exactly the command
  \<open>aws s3 ls s3://<bucket>/ --recursive --summarize\<close>, and its outcome depends on nothing
  else. A missing binary ends the process with exit code 1; a timeout, any other
  exception and a non-zero return code each give \<open>(bucket, 0)\<close> and one printed line; with
  return code 0 and no text matching \<open>Total Size:\s+(\d+)\<close> in the output the result is
  \<open>(bucket, 0)\<close> and nothing is printed; with such a text the result is the number read
  from the digits of the first match.
\<close>

lemma get_bucket_size_cli_paths:
  "cli_cmd b = [''aws'', ''s3'', ''ls'', ''s3://'' @ b @ ''/'', ''--recursive'', ''--summarize'']
   \<and> (run (cli_cmd b) = run' (cli_cmd b) \<longrightarrow> get_bucket_size_cli run b = get_bucket_size_cli run' b)
   \<and> (run (cli_cmd b) = FileNotFoundError \<longrightarrow> get_bucket_size_cli run b = (SysExit 1, [NotInstalled]))
   \<and> (run (cli_cmd b) = TimeoutExpired \<longrightarrow> get_bucket_size_cli run b = (Returns (b, 0), [Timeout b]))
   \<and> (run (cli_cmd b) = OtherError e \<longrightarrow>
        get_bucket_size_cli run b = (Returns (b, 0), [ProcessError b e]))
   \<and> (run (cli_cmd b) = Completed p \<and> returncode p \<noteq> 0 \<longrightarrow>
        get_bucket_size_cli run b = (Returns (b, 0), [AccessError b (py_strip (stderr p))]))
   \<and> (run (cli_cmd b) = Completed p \<and> returncode p = 0 \<and> \<not> has_summary (stdout p) \<longrightarrow>
        get_bucket_size_cli run b = (Returns (b, 0), []))
   \<and> (run (cli_cmd b) = Completed p \<and> returncode p = 0 \<and> has_summary (stdout p) \<longrightarrow>
        (\<exists>ds. re_search_total_size (stdout p) = Some ds \<and> ds \<noteq> [] \<and> list_all is_digit ds
           \<and> 0 \<le> int_of_digits ds
           \<and> get_bucket_size_cli run b = (Returns (b, int_of_digits ds), [])))"
proof (intro conjI impI)
  show "cli_cmd b = [''aws'', ''s3'', ''ls'', ''s3://'' @ b @ ''/'', ''--recursive'', ''--summarize'']"
    by (simp add: cli_cmd_def)
next
  assume "run (cli_cmd b) = run' (cli_cmd b)"
  then show "get_bucket_size_cli run b = get_bucket_size_cli run' b"
    by (simp add: get_bucket_size_cli_def)
next
  assume "run (cli_cmd b) = FileNotFoundError"
  then show "get_bucket_size_cli run b = (SysExit 1, [NotInstalled])"
    by (simp add: get_bucket_size_cli_def)
next
  assume "run (cli_cmd b) = TimeoutExpired"
  then show "get_bucket_size_cli run b = (Returns (b, 0), [Timeout b])"
    by (simp add: get_bucket_size_cli_def)
next
  assume "run (cli_cmd b) = OtherError e"
  then show "get_bucket_size_cli run b = (Returns (b, 0), [ProcessError b e])"
    by (simp add: get_bucket_size_cli_def)
next
  assume "run (cli_cmd b) = Completed p \<and> returncode p \<noteq> 0"
  then show "get_bucket_size_cli run b = (Returns (b, 0), [AccessError b (py_strip (stderr p))])"
    by (simp add: get_bucket_size_cli_def)
next
  assume a: "run (cli_cmd b) = Completed p \<and> returncode p = 0 \<and> \<not> has_summary (stdout p)"
  then have "re_search_total_size (stdout p) = None"
    by (simp add: re_search_total_size_None)
  with a show "get_bucket_size_cli run b = (Returns (b, 0), [])"
    by (simp add: get_bucket_size_cli_def)
next
  assume a: "run (cli_cmd b) = Completed p \<and> returncode p = 0 \<and> has_summary (stdout p)"
  then obtain ds where ds: "re_search_total_size (stdout p) = Some ds"
    using re_search_total_size_Some [of "stdout p"] by blast
  from re_search_total_size_digits [OF ds] have d: "ds \<noteq> []" "list_all is_digit ds" by simp_all
  from a ds have "get_bucket_size_cli run b = (Returns (b, int_of_digits ds), [])"
    by (simp add: get_bucket_size_cli_def)
  with ds d int_of_digits_nonneg [OF d(2)]
  show "\<exists>ds. re_search_total_size (stdout p) = Some ds \<and> ds \<noteq> [] \<and> list_all is_digit ds
           \<and> 0 \<le> int_of_digits ds
           \<and> get_bucket_size_cli run b = (Returns (b, int_of_digits ds), [])"
    by blast
qed

lemma get_bucket_size_cli_paths_examples:
  "get_bucket_size_cli (\<lambda>cmd. FileNotFoundError) ''logs-eu'' = (SysExit 1, [NotInstalled])
   \<and> get_bucket_size_cli (\<lambda>cmd. TimeoutExpired) ''logs-eu'' = (Returns (''logs-eu'', 0), [Timeout ''logs-eu''])
   \<and> get_bucket_size_cli (\<lambda>cmd. Completed \<lparr>returncode = 255, stdout = [], stderr = ''denied''\<rparr>) ''logs-eu''
       = (Returns (''logs-eu'', 0), [AccessError ''logs-eu'' ''denied''])
   \<and> get_bucket_size_cli (\<lambda>cmd. Completed \<lparr>returncode = 0, stdout = [], stderr = []\<rparr>) ''logs-eu''
       = (Returns (''logs-eu'', 0), [])
   \<and> get_bucket_size_cli
        (\<lambda>cmd. Completed \<lparr>returncode = 0,
           stdout = ''Total Objects: 2'' @ [CHR 0x0A] @ ''   Total Size: 1234'' @ [CHR 0x0A],
           stderr = []\<rparr>) ''logs-eu''
       = (Returns (''logs-eu'', 1234), [])"
proof -
  let ?out = "''Total Objects: 2'' @ [CHR 0x0A] @ ''   Total Size: 1234'' @ [CHR 0x0A]"
  let ?p1 = "\<lparr>returncode = 255, stdout = [], stderr = ''denied''\<rparr>"
  let ?p2 = "\<lparr>returncode = 0, stdout = [], stderr = []\<rparr>"
  let ?p3 = "\<lparr>returncode = 0, stdout = ?out, stderr = []\<rparr>"
  have 1: "get_bucket_size_cli (\<lambda>cmd. FileNotFoundError) ''logs-eu'' = (SysExit 1, [NotInstalled])"
    using get_bucket_size_cli_paths [of "''logs-eu''" "\<lambda>cmd. FileNotFoundError"] by simp
  have 2: "get_bucket_size_cli (\<lambda>cmd. TimeoutExpired) ''logs-eu''
      = (Returns (''logs-eu'', 0), [Timeout ''logs-eu''])"
    using get_bucket_size_cli_paths [of "''logs-eu''" "\<lambda>cmd. TimeoutExpired"] by simp
  have s: "py_strip ''denied'' = ''denied''" by code_simp
  have 3: "get_bucket_size_cli (\<lambda>cmd. Completed ?p1) ''logs-eu''
      = (Returns (''logs-eu'', 0), [AccessError ''logs-eu'' ''denied''])"
    using get_bucket_size_cli_paths [of "''logs-eu''" "\<lambda>cmd. Completed ?p1" _ _ ?p1] s by simp
  have n: "re_search_total_size [] = None" by code_simp
  then have "\<not> has_summary []" using re_search_total_size_None [of "[]"] by blast
  then have 4: "get_bucket_size_cli (\<lambda>cmd. Completed ?p2) ''logs-eu'' = (Returns (''logs-eu'', 0), [])"
    using get_bucket_size_cli_paths [of "''logs-eu''" "\<lambda>cmd. Completed ?p2" _ _ ?p2] by simp
  have m: "re_search_total_size ?out = Some ''1234''" by code_simp
  then have h: "has_summary ?out" using re_search_total_size_Some [of ?out] by blast
  have v: "int_of_digits ''1234'' = 1234" by code_simp
  have 5: "get_bucket_size_cli (\<lambda>cmd. Completed ?p3) ''logs-eu'' = (Returns (''logs-eu'', 1234), [])"
    using get_bucket_size_cli_paths [of "''logs-eu''" "\<lambda>cmd. Completed ?p3" _ _ ?p3] h m v by auto
  from 1 2 3 4 5 show ?thesis by blast
qed

lemma split_chr_line: "sep \<notin> set l \<Longrightarrow> split_chr sep (l @ sep # rest) = l # split_chr sep rest"
  by (induction l) auto

lemma split_chr_lines:
  "\<forall>l \<in> set ls. sep \<notin> set l \<Longrightarrow> split_chr sep (concat (map (\<lambda>l. l @ [sep]) ls)) = ls @ [[]]"
  by (induction ls) (simp_all add: split_chr_line)

lemma re_search_total_size_skip:
  "c \<noteq> CHR ''T'' \<Longrightarrow> re_search_total_size (c # cs) = re_search_total_size cs"
  by (simp add: match_total_size_def startswith_def)

lemma re_search_total_size_here:
  "match_total_size s = Some ds \<Longrightarrow> re_search_total_size s = Some ds"
  by (cases s) simp_all

text \<open>
  C6. \<open>get_bucket_size_cli\<close> runs the tool with \<open>s3 ls s3://<bucket>/ --recursive
  --summarize\<close> and searches its output for \<open>Total Size:\s+(\d+)\<close>. The search is not
  made line by line: \<open>\s+\<close> also matches the end of a line. On the listing of a bucket
  that holds an object whose key ends in \<open>Total Size:\<close>, followed by another object, the
  first match runs from the end of that key into the date of the next line, and the
  function returns 2025 as the size of the bucket. The only line of that output in which
  the pattern matches is the summary line, which says 30.
\<close>

theorem get_bucket_size_cli_reads_across_lines:
  "get_bucket_size_cli (\<lambda>cmd. Completed \<lparr>returncode = 0, stdout = cli_listing, stderr = []\<rparr>) ''docs''
     = (Returns (''docs'', 2025), [])
   \<and> filter (\<lambda>line. re_search_total_size line \<noteq> None) (split_chr (CHR 0x0A) cli_listing)
     = [''   Total Size: 30'']
   \<and> spec_total_size_line cli_listing = Some ''30''
   \<and> int_of_digits ''30'' = 30"
proof -
  let ?ls = "[''2025-03-01 10:00:00         10 notes Total Size:'',
         ''2025-03-02 11:30:00         20 report.txt'', [], ''Total Objects: 2'',
         ''   Total Size: 30'']"
  have c: "cli_listing = concat (map (\<lambda>l. l @ [CHR 0x0A]) ?ls)"
    by (simp add: cli_listing_def)
  have l: "split_chr (CHR 0x0A) cli_listing = ?ls @ [[]]"
    unfolding c by (rule split_chr_lines) simp
  have n: "re_search_total_size ''2025-03-01 10:00:00         10 notes Total Size:'' = None"
      "re_search_total_size ''2025-03-02 11:30:00         20 report.txt'' = None"
      "re_search_total_size [] = None"
      "re_search_total_size ''Total Objects: 2'' = None"
    by code_simp+
  have y: "re_search_total_size ''   Total Size: 30'' = Some ''30''" by code_simp
  have m: "match_total_size (''Total Size:'' @ [CHR 0x0A]
     @ ''2025-03-02 11:30:00         20 report.txt'' @ [CHR 0x0A]
     @ [CHR 0x0A]
     @ ''Total Objects: 2'' @ [CHR 0x0A]
     @ ''   Total Size: 30'' @ [CHR 0x0A]) = Some ''2025''"
    by (simp add: match_total_size_def startswith_def is_space_def is_digit_def)
  have r: "re_search_total_size cli_listing = Some ''2025''"
    unfolding cli_listing_def using re_search_total_size_here [OF m]
    by (simp add: re_search_total_size_skip del: re_search_total_size.simps)
  have v: "int_of_digits ''2025'' = 2025" "int_of_digits ''30'' = 30" by code_simp+
  have f: "filter (\<lambda>line. re_search_total_size line \<noteq> None) (split_chr (CHR 0x0A) cli_listing)
      = [''   Total Size: 30'']"
    unfolding l by (simp add: n y del: re_search_total_size.simps)
  have "get_bucket_size_cli (\<lambda>cmd. Completed \<lparr>returncode = 0, stdout = cli_listing, stderr = []\<rparr>) ''docs''
      = (Returns (''docs'', 2025), [])"
    by (simp add: get_bucket_size_cli_def r v)
  moreover have "spec_total_size_line cli_listing = Some ''30''"
    unfolding spec_total_size_line_def f by (simp add: y del: re_search_total_size.simps)
  ultimately show ?thesis using f v by simp
qed

section \<open>The CloudWatch path\<close>

lemma py_max_by_in: "py_max_by f best xs \<in> set (best # xs)"
  by (induction xs arbitrary: best) (auto split: if_splits)

lemma py_max_by_best: "f best \<le> f (py_max_by f best xs)"
proof (induction xs arbitrary: best)
  case Nil
  show ?case by simp
next
  case (Cons x xs)
  show ?case
  proof (cases "f best < f x")
    case True
    with Cons [of x] show ?thesis by simp
  next
    case False
    with Cons [of best] show ?thesis by simp
  qed
qed

lemma py_max_by_ge: "x \<in> set (best # xs) \<Longrightarrow> f x \<le> f (py_max_by f best xs)"
proof (induction xs arbitrary: best)
  case Nil
  then show ?case by simp
next
  case (Cons y ys)
  let ?b = "if f best < f y then y else best"
  have b: "f best \<le> f ?b" "f y \<le> f ?b" by auto
  from Cons.prems consider "x = best" | "x = y" | "x \<in> set ys" by auto
  then show ?case
  proof cases
    case 1
    with b(1) py_max_by_best [of f ?b ys] show ?thesis by simp
  next
    case 2
    with b(2) py_max_by_best [of f ?b ys] show ?thesis by simp
  next
    case 3
    then have "x \<in> set (?b # ys)" by simp
    from Cons.IH [OF this] show ?thesis by simp
  qed
qed

lemma upt_shift: "[k..<k + Suc n] = k # [Suc k..<Suc k + n]"
  by (simp add: upt_rec)

lemma sum_storage_classes_ok:
  "\<forall>(j, sc) \<in> set (zip [k..<k + length scs] scs). \<not> fails (cw j b sc) \<Longrightarrow>
   sum_storage_classes cw b k scs t =
     Inr (t + sum_list (map (\<lambda>(j, sc). latest_size (cw j b sc)) (zip [k..<k + length scs] scs)))"
proof (induction scs arbitrary: k t)
  case Nil
  show ?case by simp
next
  case (Cons sc scs)
  have z: "zip [k..<k + length (sc # scs)] (sc # scs) = (k, sc) # zip [Suc k..<Suc k + length scs] scs"
    using upt_shift [of k "length scs"] by simp
  from Cons.prems have nf: "\<not> fails (cw k b sc)"
    and rest: "\<forall>(j, sc) \<in> set (zip [Suc k..<Suc k + length scs] scs). \<not> fails (cw j b sc)"
    unfolding z by simp_all
  from nf obtain ds where ds: "cw k b sc = Inr ds" by (cases "cw k b sc") (auto simp: fails_def)
  show ?case
  proof (cases ds)
    case Nil
    with ds Cons.IH [OF rest] show ?thesis unfolding z by (simp add: latest_size_def)
  next
    case (Cons d ds')
    with ds Cons.IH [OF rest] show ?thesis unfolding z by (simp add: latest_size_def)
  qed
qed

lemma sum_storage_classes_fails:
  "\<exists>(j, sc) \<in> set (zip [k..<k + length scs] scs). fails (cw j b sc) \<Longrightarrow>
   \<exists>e. sum_storage_classes cw b k scs t = Inl e"
proof (induction scs arbitrary: k t)
  case Nil
  then show ?case by simp
next
  case (Cons sc scs)
  have z: "zip [k..<k + length (sc # scs)] (sc # scs) = (k, sc) # zip [Suc k..<Suc k + length scs] scs"
    using upt_shift [of k "length scs"] by simp
  show ?case
  proof (cases "cw k b sc")
    case (Inl e)
    then show ?thesis by simp
  next
    case (Inr ds)
    then have "\<not> fails (cw k b sc)" by (simp add: fails_def)
    with Cons.prems have "\<exists>(j, sc) \<in> set (zip [Suc k..<Suc k + length scs] scs). fails (cw j b sc)"
      unfolding z by simp
    from Cons.IH [OF this] Inr show ?thesis by (cases ds) auto
  qed
qed

lemma fallback_calls_zip:
  "fallback_calls = zip [1..<1 + length storage_classes] storage_classes"
  by (simp add: fallback_calls_def)

lemma fallback_sum:
  "\<forall>(k, sc) \<in> set fallback_calls. \<not> fails (cw k b sc) \<Longrightarrow>
   sum_storage_classes cw b 1 storage_classes 0
     = Inr (sum_list (map (\<lambda>(k, sc). latest_size (cw k b sc)) fallback_calls))"
  unfolding fallback_calls_zip using sum_storage_classes_ok [of 1 storage_classes cw b 0] by simp

lemma fallback_fails:
  "\<exists>(k, sc) \<in> set fallback_calls. fails (cw k b sc) \<Longrightarrow>
   \<exists>e. sum_storage_classes cw b 1 storage_classes 0 = Inl e"
  unfolding fallback_calls_zip using sum_storage_classes_fails [of 1 storage_classes cw b 0] by simp

lemma sum_list_zero: "\<forall>x \<in> set xs. f x = (0::int) \<Longrightarrow> sum_list (map f xs) = 0"
  by (induction xs) auto


text \<open>
  C1. With a client \<open>cw\<close>, \<open>get_bucket_size_cloudwatch\<close> asks for the \<open>StandardStorage\<close>
  tier first. When that answer has a data point, the result is the truncated average of
  a data point of that answer whose time stamp no other exceeds, and nothing is printed.
  When the answer is empty, each of the ten storage types is asked in turn, and if no
  call raises the result is the sum over these answers of the latest data point, an
  empty answer counting 0; if all ten answers are empty the result is 0, and nothing
  is printed.
\<close>

theorem get_bucket_size_cloudwatch_cases:
  "(cw 0 b ''StandardStorage'' = Inr (d # ds) \<longrightarrow>
      (\<exists>latest \<in> set (d # ds). (\<forall>x \<in> set (d # ds). Timestamp x \<le> Timestamp latest)
         \<and> get_bucket_size_cloudwatch (Inr cw) b = ((b, py_int (Average latest)), [])))
   \<and> (cw 0 b ''StandardStorage'' = Inr [] \<and> (\<forall>(k, sc) \<in> set fallback_calls. \<not> fails (cw k b sc)) \<longrightarrow>
        get_bucket_size_cloudwatch (Inr cw) b
          = ((b, sum_list (map (\<lambda>(k, sc). latest_size (cw k b sc)) fallback_calls)), []))
   \<and> (cw 0 b ''StandardStorage'' = Inr [] \<and> (\<forall>(k, sc) \<in> set fallback_calls. cw k b sc = Inr []) \<longrightarrow>
        get_bucket_size_cloudwatch (Inr cw) b = ((b, 0), []))
   \<and> latest_size (Inr []) = 0
   \<and> map snd fallback_calls = storage_classes
   \<and> map fst fallback_calls = [1, 2, 3, 4, 5, 6, 7, 8, 9, 10]"
proof (intro conjI impI)
  assume p: "cw 0 b ''StandardStorage'' = Inr (d # ds)"
  let ?l = "py_max_by Timestamp d ds"
  have "?l \<in> set (d # ds)" by (rule py_max_by_in)
  moreover have "\<forall>x \<in> set (d # ds). Timestamp x \<le> Timestamp ?l"
    using py_max_by_ge [of _ d ds Timestamp] by blast
  moreover have "get_bucket_size_cloudwatch (Inr cw) b = ((b, py_int (Average ?l)), [])"
    using p by (simp add: get_bucket_size_cloudwatch_def)
  ultimately show "\<exists>latest \<in> set (d # ds). (\<forall>x \<in> set (d # ds). Timestamp x \<le> Timestamp latest)
         \<and> get_bucket_size_cloudwatch (Inr cw) b = ((b, py_int (Average latest)), [])"
    by blast
next
  assume a: "cw 0 b ''StandardStorage'' = Inr [] \<and> (\<forall>(k, sc) \<in> set fallback_calls. \<not> fails (cw k b sc))"
  then have "sum_storage_classes cw b 1 storage_classes 0
     = Inr (sum_list (map (\<lambda>(k, sc). latest_size (cw k b sc)) fallback_calls))"
    using fallback_sum by blast
  with a show "get_bucket_size_cloudwatch (Inr cw) b
          = ((b, sum_list (map (\<lambda>(k, sc). latest_size (cw k b sc)) fallback_calls)), [])"
    by (simp add: get_bucket_size_cloudwatch_def)
next
  assume a: "cw 0 b ''StandardStorage'' = Inr [] \<and> (\<forall>(k, sc) \<in> set fallback_calls. cw k b sc = Inr [])"
  then have nf: "\<forall>(k, sc) \<in> set fallback_calls. \<not> fails (cw k b sc)"
    by (auto simp: fails_def)
  from a have "\<forall>x \<in> set fallback_calls. (\<lambda>(k, sc). latest_size (cw k b sc)) x = 0"
    by (auto simp: latest_size_def)
  then have "sum_list (map (\<lambda>(k, sc). latest_size (cw k b sc)) fallback_calls) = 0"
    by (rule sum_list_zero)
  with fallback_sum [of cw b] nf a show "get_bucket_size_cloudwatch (Inr cw) b = ((b, 0), [])"
    by (simp add: get_bucket_size_cloudwatch_def)
next
  show "latest_size (Inr []) = 0" by (simp add: latest_size_def)
next
  show "map snd fallback_calls = storage_classes"
    by (simp add: fallback_calls_def storage_classes_def)
next
  show "map fst fallback_calls = [1, 2, 3, 4, 5, 6, 7, 8, 9, 10]"
    by (simp add: fallback_calls_def storage_classes_def upt_rec)
qed

theorem get_bucket_size_cloudwatch_cases_witness:
  "get_bucket_size_cloudwatch
     (Inr (\<lambda>k b sc. Inr [\<lparr>Timestamp = 86400, Average = 1005 / 10\<rparr>,
                         \<lparr>Timestamp = 172800, Average = 2507 / 10\<rparr>])) ''media''
     = ((''media'', 250), [])
   \<and> get_bucket_size_cloudwatch
     (Inr (\<lambda>k b sc. if sc = ''GlacierStorage'' then Inr [\<lparr>Timestamp = 86400, Average = 3009 / 10\<rparr>]
                     else if sc = ''StandardIAStorage'' then Inr [\<lparr>Timestamp = 86400, Average = 12\<rparr>]
                     else Inr [])) ''media''
     = ((''media'', 312), [])
   \<and> get_bucket_size_cloudwatch (Inr (\<lambda>k b sc. Inr [])) ''media'' = ((''media'', 0), [])"
proof -
  let ?d1 = "\<lparr>Timestamp = 86400, Average = 1005 / 10\<rparr>"
  let ?d2 = "\<lparr>Timestamp = 172800, Average = 2507 / 10\<rparr>"
  let ?cw1 = "\<lambda>(k::nat) (b::string) (sc::string). (Inr [?d1, ?d2] :: response)"
  let ?cw2 = "\<lambda>(k::nat) (b::string) (sc::string).
      if sc = ''GlacierStorage'' then (Inr [\<lparr>Timestamp = 86400, Average = 3009 / 10\<rparr>] :: response)
      else if sc = ''StandardIAStorage'' then Inr [\<lparr>Timestamp = 86400, Average = 12\<rparr>]
      else Inr []"
  let ?cw3 = "\<lambda>(k::nat) (b::string) (sc::string). (Inr [] :: response)"
  have i: "py_int (2507 / 10) = 250" by (simp add: py_int_def floor_eq_iff)
  have j: "py_int (3009 / 10) = 300" "py_int 12 = 12" by (simp_all add: py_int_def floor_eq_iff)
  have "\<exists>latest \<in> set [?d1, ?d2]. (\<forall>x \<in> set [?d1, ?d2]. Timestamp x \<le> Timestamp latest)
      \<and> get_bucket_size_cloudwatch (Inr ?cw1) ''media'' = ((''media'', py_int (Average latest)), [])"
    using get_bucket_size_cloudwatch_cases [of ?cw1 "''media''" ?d1 "[?d2]"] by blast
  then obtain latest where l: "latest \<in> set [?d1, ?d2]" "\<forall>x \<in> set [?d1, ?d2]. Timestamp x \<le> Timestamp latest"
      "get_bucket_size_cloudwatch (Inr ?cw1) ''media'' = ((''media'', py_int (Average latest)), [])"
    by blast
  from l(1,2) have "latest = ?d2" by auto
  with l(3) i have 1: "get_bucket_size_cloudwatch (Inr ?cw1) ''media'' = ((''media'', 250), [])"
    by simp
  have nf: "\<forall>(k, sc) \<in> set fallback_calls. \<not> fails (?cw2 k ''media'' sc)"
    by (simp add: fails_def)
  have s: "sum_list (map (\<lambda>(k, sc). latest_size (?cw2 k ''media'' sc)) fallback_calls) = 312"
    by (simp add: fallback_calls_def storage_classes_def upt_rec latest_size_def j)
  from get_bucket_size_cloudwatch_cases [of ?cw2 "''media''"] nf s
  have 2: "get_bucket_size_cloudwatch (Inr ?cw2) ''media'' = ((''media'', 312), [])"
    by simp
  from get_bucket_size_cloudwatch_cases [of ?cw3 "''media''"]
  have 3: "get_bucket_size_cloudwatch (Inr ?cw3) ''media'' = ((''media'', 0), [])"
    by simp
  from 1 2 3 show ?thesis by blast
qed

section \<open>The parallel run\<close>

lemma mset_remove_nth:
  "i < length xs \<Longrightarrow> add_mset (xs ! i) (mset (take i xs @ drop (Suc i) xs)) = mset xs"
proof -
  assume "i < length xs"
  then have "xs = take i xs @ xs ! i # drop (Suc i) xs" by (rule id_take_nth_drop)
  then have "mset xs = mset (take i xs @ xs ! i # drop (Suc i) xs)" by simp
  then show ?thesis by simp
qed

lemma mset_as_completed: "mset (as_completed pick fs) = mset fs"
proof (induction pick fs rule: as_completed.induct)
  case (1 pick)
  show ?case by simp
next
  case (2 pick f fs)
  define xs where "xs = f # fs"
  define i where "i = pick (length xs) mod length xs"
  have i: "i < length xs" unfolding i_def xs_def by simp
  have step: "as_completed pick (f # fs) = xs ! i # as_completed pick (take i xs @ drop (Suc i) xs)"
    unfolding i_def xs_def by (simp add: Let_def)
  have ih: "mset (as_completed pick (take i xs @ drop (Suc i) xs)) = mset (take i xs @ drop (Suc i) xs)"
    unfolding i_def xs_def by (rule "2.IH" [OF refl refl])
  have "mset (as_completed pick (f # fs)) = add_mset (xs ! i) (mset (take i xs @ drop (Suc i) xs))"
    unfolding step using ih by simp
  also have "\<dots> = mset xs" using i by (rule mset_remove_nth)
  finally show ?case by (simp add: xs_def)
qed

lemma collect_Inr:
  "collect (acc, out) (bucket_name, Inr (name, sz), printed_by_worker)
     = (acc @ [(name, sz)], out @ printed_by_worker)"
  by (simp add: collect_def)

lemma collect_Inl:
  "collect (acc, out) (bucket_name, Inl e, printed_by_worker)
     = (acc @ [(bucket_name, 0)], out @ printed_by_worker @ [FutureError bucket_name e])"
  by (simp add: collect_def)

lemma foldl_collect:
  "foldl collect (acc, out) fs
     = (acc @ map future_result fs,
        out @ concat (map (\<lambda>(bucket_name, outcome, printed_by_worker).
                 printed_by_worker @ (case outcome of Inl e \<Rightarrow> [FutureError bucket_name e] | Inr r \<Rightarrow> [])) fs))"
proof (induction fs arbitrary: acc out)
  case Nil
  show ?case by simp
next
  case (Cons f fs)
  obtain bucket_name outcome printed_by_worker where f: "f = (bucket_name, outcome, printed_by_worker)"
    by (cases f) auto
  show ?case
  proof (cases outcome)
    case (Inl e)
    then show ?thesis by (simp add: f Cons collect_Inl future_result_def)
  next
    case (Inr r)
    obtain name sz where r: "r = (name, sz)" by (cases r) auto
    with Inr show ?thesis by (simp add: f Cons collect_Inr future_result_def)
  qed
qed

lemma map_enumerate_twice:
  "map g (enumerate n (map (\<lambda>(i, b). h i b) (enumerate n xs)))
     = map (\<lambda>(i, b). g (i, h i b)) (enumerate n xs)"
  by (induction xs arbitrary: n) simp_all



lemma future_of_worker:
  "future_result (b, process_bucket_with_progress w (b, i, n)) = worker_result w b"
  by (cases "get_bucket_size_cloudwatch (client w) b")
     (auto simp: future_result_def process_bucket_with_progress_def worker_result_def
           split: option.splits prod.splits)

lemma map_fst_enumerate: "map (\<lambda>(i, b). b) (enumerate n xs) = xs"
  by (induction xs arbitrary: n) simp_all

lemma sort_desc_mset: "mset (sort_desc xs) = mset xs"
  by (simp add: sort_desc_def)



lemma query_fails_warning:
  "query_fails c b \<Longrightarrow> \<exists>e. get_bucket_size_cloudwatch c b = ((b, 0), [MetricsWarning b e])"
proof (cases c)
  case (Inl e)
  then show ?thesis by (simp add: get_bucket_size_cloudwatch_def)
next
  case (Inr cw)
  assume q: "query_fails c b"
  show ?thesis
  proof (cases "cw 0 b ''StandardStorage''")
    case (Inl e)
    with Inr show ?thesis by (simp add: get_bucket_size_cloudwatch_def)
  next
    case r: (Inr ds)
    then have "\<not> fails (cw 0 b ''StandardStorage'')" by (simp add: fails_def)
    with q Inr r have ds: "ds = []" and f: "\<exists>(k, sc) \<in> set fallback_calls. fails (cw k b sc)"
      by (simp_all add: query_fails_def)
    from fallback_fails [of cw b] f obtain e where "sum_storage_classes cw b 1 storage_classes 0 = Inl e"
      by blast
    with Inr r ds show ?thesis by (simp add: get_bucket_size_cloudwatch_def)
  qed
qed

lemma no_failure_no_warning:
  "\<not> query_fails c b \<Longrightarrow> snd (get_bucket_size_cloudwatch c b) = []"
proof (cases c)
  case (Inl e)
  assume "\<not> query_fails c b"
  with Inl show ?thesis by (simp add: query_fails_def)
next
  case (Inr cw)
  assume q: "\<not> query_fails c b"
  show ?thesis
  proof (cases "cw 0 b ''StandardStorage''")
    case (Inl e)
    with q Inr show ?thesis by (simp add: query_fails_def fails_def)
  next
    case r: (Inr ds)
    show ?thesis
    proof (cases ds)
      case Nil
      with q Inr r have "\<forall>(k, sc) \<in> set fallback_calls. \<not> fails (cw k b sc)"
        by (auto simp: query_fails_def)
      from fallback_sum [of cw b] this Inr r Nil show ?thesis
        by (simp add: get_bucket_size_cloudwatch_def)
    next
      case (Cons d ds')
      with Inr r show ?thesis by (simp add: get_bucket_size_cloudwatch_def)
    qed
  qed
qed

text \<open>The futures that \<open>fan_out\<close> submits, one per bucket.\<close>

lemma fan_out_collected:
  assumes "bucket_names \<noteq> []"
  shows "\<exists>futures.
      map future_result futures
        = map (\<lambda>(i, b). worker_result (workers i) b) (enumerate 0 bucket_names)
    \<and> (\<forall>i < length bucket_names.
          \<exists>outcome. (bucket_names ! i, outcome,
             snd (process_bucket_with_progress (workers i)
                    (bucket_names ! i, i + 1, length bucket_names))) \<in> set futures)
    \<and> fan_out workers pick bucket_names
        = (Inr (map future_result (as_completed pick futures)),
           concat (map (\<lambda>(bucket_name, outcome, printed_by_worker).
               printed_by_worker @ (case outcome of Inl e \<Rightarrow> [FutureError bucket_name e] | Inr r \<Rightarrow> []))
             (as_completed pick futures)))"
proof -
  define n where "n = length bucket_names"
  define futures where "futures =
    map (\<lambda>(i, b). (b, process_bucket_with_progress (workers i) (b, i + 1, n))) (enumerate 0 bucket_names)"
  have f: "map (\<lambda>(i, args). (fst args, process_bucket_with_progress (workers i) args))
             (enumerate 0 (map (\<lambda>(i, bucket_name). (bucket_name, i + 1, n)) (enumerate 0 bucket_names)))
           = futures"
    unfolding futures_def by (simp add: map_enumerate_twice)
  have 1: "map future_result futures
        = map (\<lambda>(i, b). worker_result (workers i) b) (enumerate 0 bucket_names)"
    unfolding futures_def by (simp add: future_of_worker split_def)
  have 2: "\<forall>i < length bucket_names.
          \<exists>outcome. (bucket_names ! i, outcome,
             snd (process_bucket_with_progress (workers i) (bucket_names ! i, i + 1, n))) \<in> set futures"
  proof (intro allI impI)
    fix i assume i: "i < length bucket_names"
    then have "futures ! i = (bucket_names ! i,
        process_bucket_with_progress (workers i) (bucket_names ! i, i + 1, n))"
      unfolding futures_def by (simp add: nth_enumerate_eq)
    moreover have "futures ! i \<in> set futures" using i unfolding futures_def by simp
    ultimately show "\<exists>outcome. (bucket_names ! i, outcome,
        snd (process_bucket_with_progress (workers i) (bucket_names ! i, i + 1, n))) \<in> set futures"
      by (metis prod.collapse)
  qed
  have 3: "fan_out workers pick bucket_names
        = (Inr (map future_result (as_completed pick futures)),
           concat (map (\<lambda>(bucket_name, outcome, printed_by_worker).
               printed_by_worker @ (case outcome of Inl e \<Rightarrow> [FutureError bucket_name e] | Inr r \<Rightarrow> []))
             (as_completed pick futures)))"
    using assms unfolding fan_out_def Let_def n_def [symmetric] f
    by (simp add: foldl_collect n_def)
  from 1 2 3 show ?thesis unfolding n_def by blast
qed

lemma fan_out_results:
  assumes "bucket_names \<noteq> []"
  shows "\<exists>bucket_sizes out. fan_out workers pick bucket_names = (Inr bucket_sizes, out)
    \<and> mset bucket_sizes = mset (map (\<lambda>(i, b). worker_result (workers i) b) (enumerate 0 bucket_names))
    \<and> (\<forall>i < length bucket_names.
          set (snd (get_bucket_size_cloudwatch (client (workers i)) (bucket_names ! i))) \<subseteq> set out)"
proof -
  from fan_out_collected [OF assms, of workers pick] obtain futures where
    1: "map future_result futures
        = map (\<lambda>(i, b). worker_result (workers i) b) (enumerate 0 bucket_names)"
    and 2: "\<forall>i < length bucket_names.
          \<exists>outcome. (bucket_names ! i, outcome,
             snd (process_bucket_with_progress (workers i)
                    (bucket_names ! i, i + 1, length bucket_names))) \<in> set futures"
    and 3: "fan_out workers pick bucket_names
        = (Inr (map future_result (as_completed pick futures)),
           concat (map (\<lambda>(bucket_name, outcome, printed_by_worker).
               printed_by_worker @ (case outcome of Inl e \<Rightarrow> [FutureError bucket_name e] | Inr r \<Rightarrow> []))
             (as_completed pick futures)))"
    by blast
  let ?out = "concat (map (\<lambda>(bucket_name, outcome, printed_by_worker).
               printed_by_worker @ (case outcome of Inl e \<Rightarrow> [FutureError bucket_name e] | Inr r \<Rightarrow> []))
             (as_completed pick futures))"
  have s: "set (as_completed pick futures) = set futures"
    using mset_as_completed [of pick futures] by (rule mset_eq_setD)
  have m: "mset (map future_result (as_completed pick futures))
      = mset (map (\<lambda>(i, b). worker_result (workers i) b) (enumerate 0 bucket_names))"
    using mset_as_completed [of pick futures] 1 by (metis mset_map)
  have o: "\<forall>i < length bucket_names.
      set (snd (get_bucket_size_cloudwatch (client (workers i)) (bucket_names ! i))) \<subseteq> set ?out"
  proof (intro allI impI)
    fix i assume "i < length bucket_names"
    with 2 obtain outcome where
      "(bucket_names ! i, outcome,
         snd (process_bucket_with_progress (workers i)
                (bucket_names ! i, i + 1, length bucket_names))) \<in> set (as_completed pick futures)"
      unfolding s by blast
    then have "set (snd (process_bucket_with_progress (workers i)
                (bucket_names ! i, i + 1, length bucket_names))) \<subseteq> set ?out"
      by fastforce
    moreover have "set (snd (get_bucket_size_cloudwatch (client (workers i)) (bucket_names ! i)))
      \<subseteq> set (snd (process_bucket_with_progress (workers i)
                (bucket_names ! i, i + 1, length bucket_names)))"
      by (auto simp: process_bucket_with_progress_def split: prod.splits option.splits)
    ultimately show "set (snd (get_bucket_size_cloudwatch (client (workers i)) (bucket_names ! i))) \<subseteq> set ?out"
      by blast
  qed
  from 3 m o show ?thesis by blast
qed











text \<open>
  C7. A failing query of the metrics backend for a bucket is caught inside
  \<open>get_bucket_size_cloudwatch\<close>: the result is \<open>(bucket, 0)\<close> and one warning is printed;
  without a failure nothing is printed. In the parallel run the collection is, as a
  multiset, the list of the workers' own results: what a bucket reports depends on its
  own worker only, so a failure for one bucket changes no other bucket's result, the run
  returns normally, the failing bucket reports 0 and its warning is among the printed
  lines. A worker that raises after the query is caught by \<open>main\<close> and reports 0 as well.
\<close>

theorem failure_is_isolated:
  "(query_fails c b \<longrightarrow> (\<exists>e. get_bucket_size_cloudwatch c b = ((b, 0), [MetricsWarning b e])))
   \<and> (\<not> query_fails c b \<longrightarrow> snd (get_bucket_size_cloudwatch c b) = [])
   \<and> (print_raises w = None \<longrightarrow> worker_result w b = fst (get_bucket_size_cloudwatch (client w) b))
   \<and> (print_raises w \<noteq> None \<longrightarrow> worker_result w b = (b, 0))
   \<and> (bucket_names \<noteq> [] \<longrightarrow>
        (\<exists>bucket_sizes out.
            fan_out workers pick bucket_names = (Inr bucket_sizes, out)
          \<and> mset (sort_desc bucket_sizes)
              = mset (map (\<lambda>(i, b). worker_result (workers i) b) (enumerate 0 bucket_names))
          \<and> (\<forall>i < length bucket_names.
                query_fails (client (workers i)) (bucket_names ! i) \<longrightarrow>
                  worker_result (workers i) (bucket_names ! i) = (bucket_names ! i, 0)
                \<and> (\<exists>e. MetricsWarning (bucket_names ! i) e \<in> set out))))"
proof (intro conjI impI)
  assume "query_fails c b"
  then show "\<exists>e. get_bucket_size_cloudwatch c b = ((b, 0), [MetricsWarning b e])"
    by (rule query_fails_warning)
next
  assume "\<not> query_fails c b"
  then show "snd (get_bucket_size_cloudwatch c b) = []" by (rule no_failure_no_warning)
next
  assume "print_raises w = None"
  then show "worker_result w b = fst (get_bucket_size_cloudwatch (client w) b)"
    by (simp add: worker_result_def)
next
  assume "print_raises w \<noteq> None"
  then show "worker_result w b = (b, 0)" by (auto simp: worker_result_def)
next
  assume ne: "bucket_names \<noteq> []"
  from fan_out_results [OF ne, of workers pick] obtain bucket_sizes out where
    f: "fan_out workers pick bucket_names = (Inr bucket_sizes, out)"
    and m: "mset bucket_sizes = mset (map (\<lambda>(i, b). worker_result (workers i) b) (enumerate 0 bucket_names))"
    and o: "\<forall>i < length bucket_names.
          set (snd (get_bucket_size_cloudwatch (client (workers i)) (bucket_names ! i))) \<subseteq> set out"
    by blast
  have "\<forall>i < length bucket_names.
                query_fails (client (workers i)) (bucket_names ! i) \<longrightarrow>
                  worker_result (workers i) (bucket_names ! i) = (bucket_names ! i, 0)
                \<and> (\<exists>e. MetricsWarning (bucket_names ! i) e \<in> set out)"
  proof (intro allI impI)
    fix i assume i: "i < length bucket_names"
      and q: "query_fails (client (workers i)) (bucket_names ! i)"
    from query_fails_warning [OF q] obtain e where
      e: "get_bucket_size_cloudwatch (client (workers i)) (bucket_names ! i)
            = ((bucket_names ! i, 0), [MetricsWarning (bucket_names ! i) e])"
      by blast
    then have "worker_result (workers i) (bucket_names ! i) = (bucket_names ! i, 0)"
      by (simp add: worker_result_def split: option.splits)
    moreover from o i e have "MetricsWarning (bucket_names ! i) e \<in> set out" by auto
    ultimately show "worker_result (workers i) (bucket_names ! i) = (bucket_names ! i, 0)
                \<and> (\<exists>e. MetricsWarning (bucket_names ! i) e \<in> set out)"
      by blast
  qed
  with f m show "\<exists>bucket_sizes out.
            fan_out workers pick bucket_names = (Inr bucket_sizes, out)
          \<and> mset (sort_desc bucket_sizes)
              = mset (map (\<lambda>(i, b). worker_result (workers i) b) (enumerate 0 bucket_names))
          \<and> (\<forall>i < length bucket_names.
                query_fails (client (workers i)) (bucket_names ! i) \<longrightarrow>
                  worker_result (workers i) (bucket_names ! i) = (bucket_names ! i, 0)
                \<and> (\<exists>e. MetricsWarning (bucket_names ! i) e \<in> set out))"
    by (auto simp: sort_desc_mset)
qed

theorem failure_is_isolated_witness:
  "\<exists>bucket_sizes out.
     fan_out (\<lambda>i. \<lparr>client = (if i = 1 then Inl (SdkError ''denied'')
                             else Inr (\<lambda>k b sc. Inr [\<lparr>Timestamp = 1, Average = 7\<rparr>])),
                   print_raises = None\<rparr>)
       (\<lambda>n. 2) [''a'', ''b'', ''c''] = (Inr bucket_sizes, out)
   \<and> mset (sort_desc bucket_sizes) = {#(''a'', 7), (''b'', 0), (''c'', 7)#}
   \<and> (\<exists>e. MetricsWarning ''b'' e \<in> set out)"
proof -
  let ?ok = "Inr (\<lambda>(k::nat) (b::string) (sc::string). (Inr [\<lparr>Timestamp = 1, Average = 7\<rparr>] :: response))
      :: error + cloudwatch"
  let ?W = "\<lambda>i::nat. \<lparr>client = (if i = 1 then Inl (SdkError ''denied'') else ?ok), print_raises = None\<rparr>"
  have i: "py_int 7 = 7" by (simp add: py_int_def)
  have r: "worker_result (?W 0) ''a'' = (''a'', 7)" "worker_result (?W 1) ''b'' = (''b'', 0)"
      "worker_result (?W 2) ''c'' = (''c'', 7)"
    by (simp_all add: worker_result_def get_bucket_size_cloudwatch_def i)
  have q: "query_fails (client (?W 1)) ''b''" by (simp add: query_fails_def)
  have e: "enumerate 0 [''a'', ''b'', ''c''] = [(0, ''a''), (1, ''b''), (2, ''c'')]" by simp
  from failure_is_isolated [of _ _ _ "[''a'', ''b'', ''c'']" ?W "\<lambda>n. 2"]
  obtain bucket_sizes out where
    f: "fan_out ?W (\<lambda>n. 2) [''a'', ''b'', ''c''] = (Inr bucket_sizes, out)"
    and m: "mset (sort_desc bucket_sizes)
              = mset (map (\<lambda>(i, b). worker_result (?W i) b) (enumerate 0 [''a'', ''b'', ''c'']))"
    and w: "\<forall>i < length [''a'', ''b'', ''c''].
                query_fails (client (?W i)) ([''a'', ''b'', ''c''] ! i) \<longrightarrow>
                  worker_result (?W i) ([''a'', ''b'', ''c''] ! i) = ([''a'', ''b'', ''c''] ! i, 0)
                \<and> (\<exists>e. MetricsWarning ([''a'', ''b'', ''c''] ! i) e \<in> set out)"
    by blast
  from m have m': "mset (sort_desc bucket_sizes) = {#(''a'', 7), (''b'', 0), (''c'', 7)#}"
    unfolding e using r by simp
  from w [rule_format, of 1] q have "\<exists>e. MetricsWarning ''b'' e \<in> set out" by simp
  with f m' show ?thesis by blast
qed

lemma check_aws_cli_ok:
  "run [''aws'', ''--version''] = Completed p \<Longrightarrow> returncode p = 0 \<Longrightarrow>
   check_aws_cli run = (Returns True, [CliVersion (py_strip (stdout p))])"
  by (simp add: check_aws_cli_def)

text \<open>
  C8. \<open>get_all_bucket_names\<close> returns the names in the order of the response (the fast
  script drops the skipped ones, the others keep them all) and prints nothing; a response
  without a bucket, or with skipped buckets only, gives the empty list. When listing
  raises, as it does without valid credentials, the function returns the empty list too,
  but prints the error: the lists are equal, the printed lines are not. In \<open>main\<close> of the
  fast script a credentials failure is met before, by the check of the caller identity,
  and ends the process with exit code 1, while an empty list prints that no bucket was
  found and returns; in \<open>main\<close> of the CLI script a failed listing prints the error before
  that line.
\<close>

theorem empty_vs_auth_failure:
  "get_all_bucket_names (Inr names) = (filter (\<lambda>name. \<not> skipped name) names, [])
   \<and> subseq (fst (get_all_bucket_names (Inr names))) names
   \<and> get_all_bucket_names_cli (Inr names) = (names, [])
   \<and> get_all_bucket_names (Inr []) = ([], [])
   \<and> get_all_bucket_names_cli (Inr []) = ([], [])
   \<and> get_all_bucket_names (Inl e) = ([], [ListError e])
   \<and> get_all_bucket_names_cli (Inl e) = ([], [ListError e])
   \<and> get_all_bucket_names (Inl e) \<noteq> get_all_bucket_names (Inr names)
   \<and> get_all_bucket_names_cli (Inl e) \<noteq> get_all_bucket_names_cli (Inr names)
   \<and> main (Some e) list_buckets workers pick = (SysExit 1, [CredentialsError e])
   \<and> main None (Inr []) workers pick = (Returns (), [CredentialsOk, NoBuckets])
   \<and> main None (Inl e) workers pick = (Returns (), [CredentialsOk, ListError e, NoBuckets])
   \<and> (list_all skipped names \<longrightarrow>
        main None (Inr names) workers pick = (Returns (), [CredentialsOk, NoBuckets]))
   \<and> (run [''aws'', ''--version''] = Completed p \<and> returncode p = 0 \<longrightarrow>
        main_cli run (Inr []) = (Returns (), [CliVersion (py_strip (stdout p)), NoBuckets])
      \<and> main_cli run (Inl e)
          = (Returns (), [CliVersion (py_strip (stdout p)), ListError e, NoBuckets]))"
proof (intro conjI impI)
  show "subseq (fst (get_all_bucket_names (Inr names))) names"
    by (simp add: get_all_bucket_names_def)
next
  assume "list_all skipped names"
  then have "filter (\<lambda>name. \<not> skipped name) names = []"
    by (simp add: list_all_iff filter_empty_conv)
  then show "main None (Inr names) workers pick = (Returns (), [CredentialsOk, NoBuckets])"
    by (simp add: main_def get_all_bucket_names_def)
next
  assume a: "run [''aws'', ''--version''] = Completed p \<and> returncode p = 0"
  then have c: "check_aws_cli run = (Returns True, [CliVersion (py_strip (stdout p))])"
    by (simp add: check_aws_cli_ok)
  show "main_cli run (Inr []) = (Returns (), [CliVersion (py_strip (stdout p)), NoBuckets])"
    by (simp add: main_cli_def c get_all_bucket_names_cli_def)
  show "main_cli run (Inl e)
          = (Returns (), [CliVersion (py_strip (stdout p)), ListError e, NoBuckets])"
    by (simp add: main_cli_def c get_all_bucket_names_cli_def)
qed (simp_all add: get_all_bucket_names_def get_all_bucket_names_cli_def main_def)

theorem empty_vs_auth_failure_witness:
  "main None (Inr [''App-Logs'', ''db-01'']) (\<lambda>i. \<lparr>client = Inl (SdkError ''x''), print_raises = None\<rparr>)
       (\<lambda>n. 0) = (Returns (), [CredentialsOk, NoBuckets])
   \<and> main_cli (\<lambda>cmd. Completed \<lparr>returncode = 0, stdout = ''aws-cli/2.15'', stderr = []\<rparr>) (Inr [])
       = (Returns (), [CliVersion ''aws-cli/2.15'', NoBuckets])
   \<and> main_cli (\<lambda>cmd. Completed \<lparr>returncode = 0, stdout = ''aws-cli/2.15'', stderr = []\<rparr>)
         (Inl (SdkError ''InvalidAccessKeyId''))
       = (Returns (), [CliVersion ''aws-cli/2.15'', ListError (SdkError ''InvalidAccessKeyId''),
            NoBuckets])"
proof -
  let ?p = "\<lparr>returncode = 0, stdout = ''aws-cli/2.15'', stderr = []\<rparr>"
  have s: "list_all skipped [''App-Logs'', ''db-01'']" by code_simp
  have t: "py_strip ''aws-cli/2.15'' = ''aws-cli/2.15''" by code_simp
  from empty_vs_auth_failure [of "[''App-Logs'', ''db-01'']" "SdkError ''InvalidAccessKeyId''" _
      "\<lambda>i. \<lparr>client = Inl (SdkError ''x''), print_raises = None\<rparr>" "\<lambda>n. 0"
      "\<lambda>cmd. Completed ?p" ?p] s t
  show ?thesis by simp
qed

section \<open>Output formatting\<close>

declare bit_length.simps [simp del] str_nat.simps [simp del] format_loop.simps [simp del]

lemma bit_length_le: "n < 2 ^ k \<Longrightarrow> bit_length n \<le> k"
proof (induction k arbitrary: n)
  case 0
  then have "n = 0" by simp
  then show ?case by (simp add: bit_length.simps)
next
  case (Suc k)
  show ?case
  proof (cases "n = 0")
    case True
    then show ?thesis by (simp add: bit_length.simps)
  next
    case False
    from Suc.prems have "n div 2 < 2 ^ k" by simp
    from Suc.IH [OF this] False show ?thesis by (subst bit_length.simps) simp
  qed
qed

lemma py_float_exact:
  assumes "\<bar>i\<bar> < 2 ^ 53"
  shows "py_float i = Some (of_int i)"
proof -
  define n where "n = nat \<bar>i\<bar>"
  from assms have n: "n < 2 ^ 53" unfolding n_def by (simp add: nat_less_iff)
  from bit_length_le [OF n] have s: "bit_length n - 53 = 0" by simp
  have "(2::nat) ^ 53 \<le> 2 ^ 1024" by (rule power_increasing) simp_all
  with n have b: "\<not> (2::nat) ^ 1024 \<le> n" by linarith
  have "(of_int (sgn i) * of_nat n :: rat) = of_int (sgn i * \<bar>i\<bar>)"
    unfolding n_def by simp
  also have "sgn i * \<bar>i\<bar> = i" by (rule mult_sgn_abs)
  finally have v: "(of_int (sgn i) * of_nat n :: rat) = of_int i" .
  show ?thesis
    unfolding py_float_def n_def [symmetric] Let_def s using b v by simp
qed

lemma format_loop_stop:
  "sz < 1024 \<or> int (length units) - 1 \<le> int unit_index \<Longrightarrow>
   format_loop units sz unit_index = (sz, unit_index)"
  by (subst format_loop.simps) auto

lemma format_loop_steps:
  "1024 ^ j \<le> sz \<Longrightarrow> unit_index + j < length units \<Longrightarrow>
   format_loop units sz unit_index = format_loop units (sz / 1024 ^ j) (unit_index + j)"
proof (induction j arbitrary: sz unit_index)
  case 0
  then show ?case by simp
next
  case (Suc j)
  have "(1024::rat) ^ 1 \<le> 1024 ^ Suc j" by (rule power_increasing) simp_all
  then have "(1024::rat) \<le> 1024 ^ Suc j" by (simp only: power_one_right)
  from this Suc.prems(1) have a: "1024 \<le> sz" by (rule order_trans)
  from Suc.prems have b: "int unit_index < int (length units) - 1" by simp
  from Suc.prems have c: "1024 ^ j \<le> sz / 1024" by (simp add: le_divide_eq)
  from Suc.prems have d: "(unit_index + 1) + j < length units" by simp
  have "format_loop units sz unit_index = format_loop units (sz / 1024) (unit_index + 1)"
    using a b by (subst format_loop.simps) simp
  also have "\<dots> = format_loop units (sz / 1024 / 1024 ^ j) ((unit_index + 1) + j)"
    by (rule Suc.IH [OF c d])
  finally show ?case by simp
qed

lemma format_loop_unit:
  assumes "k < length units" and "1024 ^ k \<le> x"
    and "Suc k < length units \<longrightarrow> x < 1024 ^ Suc k"
  shows "format_loop units x 0 = (x / 1024 ^ k, k)"
proof -
  from assms(1,2) have "format_loop units x 0 = format_loop units (x / 1024 ^ k) (0 + k)"
    by (intro format_loop_steps) simp_all
  moreover have "x / 1024 ^ k < 1024 \<or> int (length units) - 1 \<le> int k"
  proof (cases "Suc k < length units")
    case True
    with assms(3) have "x < 1024 ^ Suc k" by simp
    then have "x / 1024 ^ k < 1024" by (simp add: divide_less_eq mult.commute)
    then show ?thesis by simp
  next
    case False
    then show ?thesis by simp
  qed
  ultimately show ?thesis by (simp add: format_loop_stop)
qed

lemma format_size_with_unit:
  assumes "size_bytes \<noteq> 0" and "py_float size_bytes = Some x"
    and "k < length units" and "1024 ^ k \<le> x"
    and "Suc k < length units \<longrightarrow> x < 1024 ^ Suc k"
  shows "format_size_with units size_bytes
     = Inr ((if k = 0 then str_int (py_int x) else fmt_2f (x / 1024 ^ k)) @ '' '' @ units ! k)"
  using assms(1,2) format_loop_unit [OF assms(3,4,5)]
  by (simp add: format_size_with_def)

lemma round_half_even_bounds: "\<lfloor>y\<rfloor> \<le> round_half_even y \<and> round_half_even y \<le> \<lceil>y\<rceil>"
proof -
  have "y = of_int \<lfloor>y\<rfloor> \<or> \<lceil>y\<rceil> = \<lfloor>y\<rfloor> + 1"
    by (metis ceiling_altdef of_int_floor_cancel)
  moreover have "y = of_int \<lfloor>y\<rfloor> \<Longrightarrow> round_half_even y = \<lfloor>y\<rfloor>"
    by (simp add: round_half_even_def Let_def)
  moreover have "round_half_even y = \<lfloor>y\<rfloor> \<or> round_half_even y = \<lfloor>y\<rfloor> + 1"
    by (simp add: round_half_even_def Let_def)
  moreover have "\<lfloor>y\<rfloor> \<le> \<lceil>y\<rceil>" by (rule floor_le_ceiling)
  ultimately show ?thesis by auto
qed

lemma hundredths_bounds:
  assumes "of_int a \<le> x" and "x \<le> of_int b" and "0 \<le> a"
  shows "100 * a \<le> hundredths x \<and> hundredths x \<le> 100 * b"
proof -
  from assms have x: "0 \<le> x" by (meson of_int_0_le_iff order_trans)
  then have h: "hundredths x = round_half_even (x * 100)" by (simp add: hundredths_def)
  from assms(1) have "of_int (100 * a) \<le> x * 100" by simp
  then have "100 * a \<le> \<lfloor>x * 100\<rfloor>" by (simp only: le_floor_iff)
  moreover from assms(2) have "x * 100 \<le> of_int (100 * b)" by simp
  then have "\<lceil>x * 100\<rceil> \<le> 100 * b" by (simp only: ceiling_le_iff)
  ultimately show ?thesis using round_half_even_bounds [of "x * 100"] unfolding h by linarith
qed

lemma round_half_even_nearest: "\<bar>of_int (round_half_even y) - y\<bar> \<le> 1 / 2"
proof -
  have "of_int \<lfloor>y\<rfloor> \<le> y" "y < of_int \<lfloor>y\<rfloor> + 1" by linarith+
  then show ?thesis by (auto simp: round_half_even_def Let_def abs_le_iff)
qed

lemma bit_length_gt: "2 ^ k \<le> n \<Longrightarrow> k < bit_length n"
proof (induction k arbitrary: n)
  case 0
  then have "n \<noteq> 0" by simp
  then show ?case by (subst bit_length.simps) simp
next
  case (Suc k)
  then have "2 ^ k \<le> n div 2" by simp
  from Suc.IH [OF this] have "k < bit_length (n div 2)" .
  moreover have "(0::nat) < 2 ^ Suc k" by simp
  with Suc.prems have "n \<noteq> 0" by linarith
  ultimately show ?case by (subst bit_length.simps) simp
qed

lemma bit_length_lower: "n \<noteq> 0 \<Longrightarrow> 2 ^ (bit_length n - 1) \<le> n"
proof (induction n rule: bit_length.induct)
  case (1 n)
  from "1.prems" have b: "bit_length n = Suc (bit_length (n div 2))"
    by (subst bit_length.simps) simp
  show ?case
  proof (cases "n div 2 = 0")
    case True
    then have "bit_length (n div 2) = 0" by (simp add: bit_length.simps)
    with b "1.prems" show ?thesis by simp
  next
    case False
    from "1.IH" [OF "1.prems" False] have i: "2 ^ (bit_length (n div 2) - 1) \<le> n div 2" .
    from False have "bit_length (n div 2) \<noteq> 0" by (subst bit_length.simps) simp
    then have "(2::nat) ^ bit_length (n div 2) = 2 * 2 ^ (bit_length (n div 2) - 1)"
      by (cases "bit_length (n div 2)") simp_all
    also from i have "\<dots> \<le> 2 * (n div 2)" by simp
    also have "\<dots> \<le> n" by simp
    finally show ?thesis using b by simp
  qed
qed

lemma py_float_ge:
  assumes "2 ^ k \<le> i" and "53 \<le> k"
  shows "(1024 \<le> k \<longrightarrow> py_float i = None) \<and> (\<forall>x. py_float i = Some x \<longrightarrow> 2 ^ k \<le> x)"
proof -
  define n where "n = nat \<bar>i\<bar>"
  define shift where "shift = bit_length n - 53"
  define q where "q = n div 2 ^ shift"
  define q' where "q' = (if 2 ^ shift < 2 * (n mod 2 ^ shift)
      \<or> (2 * (n mod 2 ^ shift) = 2 ^ shift \<and> odd q) then q + 1 else q)"
  define m where "m = q' * 2 ^ shift"
  have "(0::int) < 2 ^ k" by simp
  with assms(1) have i: "0 < i" by linarith
  then have ni: "int n = i" unfolding n_def by simp
  from assms(1) have "int (2 ^ k) \<le> int n" unfolding ni by simp
  then have kn: "2 ^ k \<le> n" by (simp only: of_nat_le_iff)
  from bit_length_gt [OF kn] have kb: "k < bit_length n" .
  with assms(2) have sh: "shift = bit_length n - 53" "53 + shift = bit_length n"
    unfolding shift_def by simp_all
  have "(0::nat) < 2 ^ k" by simp
  with kn have "n \<noteq> 0" by linarith
  from bit_length_lower [OF this] have low: "2 ^ (bit_length n - 1) \<le> n" .
  from sh(2) have "bit_length n - 1 = 52 + shift" by simp
  with low have "2 ^ 52 * 2 ^ shift \<le> n" by (simp add: power_add)
  then have "2 ^ 52 * 2 ^ shift div 2 ^ shift \<le> n div 2 ^ shift" by (rule div_le_mono)
  then have "2 ^ 52 \<le> q" unfolding q_def by simp
  moreover have "q \<le> q'" unfolding q'_def by simp
  ultimately have "2 ^ 52 \<le> q'" by (rule order_trans)
  then have "2 ^ 52 * 2 ^ shift \<le> q' * 2 ^ shift" by (rule mult_right_mono) simp
  then have "2 ^ (52 + shift) \<le> m" unfolding m_def by (simp add: power_add)
  moreover from kb sh(2) have "k \<le> 52 + shift" by simp
  then have "(2::nat) ^ k \<le> 2 ^ (52 + shift)" by (rule power_increasing) simp
  ultimately have km: "2 ^ k \<le> m" by (rule order_trans [rotated])
  have p: "py_float i = (if 2 ^ 1024 \<le> m then None else Some (of_nat m))"
    unfolding py_float_def Let_def m_def q'_def q_def shift_def n_def using i by simp
  have "1024 \<le> k \<longrightarrow> py_float i = None"
  proof
    assume "1024 \<le> k"
    then have "(2::nat) ^ 1024 \<le> 2 ^ k" by (rule power_increasing) simp
    from this km have "2 ^ 1024 \<le> m" by (rule order_trans)
    then show "py_float i = None" unfolding p by (simp only: if_True)
  qed
  moreover have "\<forall>x. py_float i = Some x \<longrightarrow> 2 ^ k \<le> x"
  proof (intro allI impI)
    fix x assume "py_float i = Some x"
    then have "x = of_nat m" unfolding p by (simp split: if_splits)
    moreover from km have "(of_nat (2 ^ k) :: rat) \<le> of_nat m" by (simp only: of_nat_le_iff)
    ultimately show "2 ^ k \<le> x" by simp
  qed
  ultimately show ?thesis by blast
qed

lemma round_half_even_unique:
  assumes "\<bar>of_int a - y\<bar> < 1 / 2"
  shows "round_half_even y = a"
proof -
  from round_half_even_nearest [of y] assms
  have "\<bar>(of_int (round_half_even y) :: rat) - of_int a\<bar> < 1" by linarith
  then have "\<bar>(of_int (round_half_even y - a) :: rat)\<bar> < of_int 1" by simp
  then have "\<bar>round_half_even y - a\<bar> < 1" by (simp only: of_int_abs [symmetric] of_int_less_iff)
  then show ?thesis by simp
qed

lemma hundredths_ge:
  assumes "of_int a \<le> x" and "0 \<le> a"
  shows "100 * a \<le> hundredths x"
proof -
  from assms have x: "0 \<le> x" by (meson of_int_0_le_iff order_trans)
  then have h: "hundredths x = round_half_even (x * 100)" by (simp add: hundredths_def)
  from assms(1) have "of_int (100 * a) \<le> x * 100" by simp
  then have "100 * a \<le> \<lfloor>x * 100\<rfloor>" by (simp only: le_floor_iff)
  then show ?thesis using round_half_even_bounds [of "x * 100"] unfolding h by linarith
qed

lemma str_nat_digit: "n < 10 \<Longrightarrow> str_nat n = [digit_chr n]"
  by (subst str_nat.simps) simp

lemma str_nat_step: "10 \<le> n \<Longrightarrow> str_nat n = str_nat (n div 10) @ [digit_chr (n mod 10)]"
  by (subst str_nat.simps) simp

lemma format_size_small:
  assumes "0 < n" and "n < 1024" and "units \<noteq> []"
  shows "format_size_with units n = Inr (str_nat (nat n) @ '' '' @ units ! 0)"
proof -
  from assms have "\<bar>n\<bar> < 2 ^ 53" by simp
  then have p: "py_float n = Some (of_int n)" by (rule py_float_exact)
  from assms have "format_size_with units n
      = Inr ((if (0::nat) = 0 then str_int (py_int (of_int n)) else fmt_2f (of_int n / 1024 ^ 0))
             @ '' '' @ units ! 0)"
    by (intro format_size_with_unit [OF _ p]) simp_all
  moreover from assms have "py_int (of_int n) = n" by (simp add: py_int_def)
  moreover from assms have "str_int n = str_nat (nat n)" by (simp add: str_int_def)
  ultimately show ?thesis by simp
qed

lemma format_size_exact:
  assumes "0 < k" and "k < length units" and "1024 ^ k \<le> n"
    and "Suc k < length units \<longrightarrow> n < 1024 ^ Suc k" and "n < 2 ^ 53"
  shows "format_size_with units n = Inr (fmt_2f (of_int n / 1024 ^ k) @ '' '' @ units ! k)"
    and "1 \<le> (of_int n :: rat) / 1024 ^ k"
    and "Suc k < length units \<longrightarrow> (of_int n :: rat) / 1024 ^ k < 1024"
proof -
  have "(0::int) < 1024 ^ k" by simp
  with assms(3) have n: "0 < n" by linarith
  with assms(5) have "\<bar>n\<bar> < 2 ^ 53" by simp
  then have p: "py_float n = Some (of_int n)" by (rule py_float_exact)
  from assms(3) have "(of_int (1024 ^ k) :: rat) \<le> of_int n" by (simp only: of_int_le_iff)
  then have a: "(1024::rat) ^ k \<le> of_int n" by simp
  have b: "Suc k < length units \<longrightarrow> (of_int n :: rat) < 1024 ^ Suc k"
  proof
    assume "Suc k < length units"
    with assms(4) have "n < 1024 ^ Suc k" by simp
    then have "(of_int n :: rat) < of_int (1024 ^ Suc k)" by (simp only: of_int_less_iff)
    then show "(of_int n :: rat) < 1024 ^ Suc k" by simp
  qed
  from n have "n \<noteq> 0" by simp
  from format_size_with_unit [OF this p assms(2) a b] assms(1)
  show "format_size_with units n = Inr (fmt_2f (of_int n / 1024 ^ k) @ '' '' @ units ! k)"
    by simp
  from a show "1 \<le> (of_int n :: rat) / 1024 ^ k" by (simp add: le_divide_eq)
  from b show "Suc k < length units \<longrightarrow> (of_int n :: rat) / 1024 ^ k < 1024"
    by (simp add: divide_less_eq mult.commute)
qed

lemma format_size_top:
  assumes "2 ^ 53 \<le> n" and "py_float n = Some x" and "length units = 5 \<or> length units = 6"
  shows "2 ^ 53 \<le> x"
    and "format_size_with units n
      = Inr (fmt_2f (x / 1024 ^ (length units - 1)) @ '' '' @ units ! (length units - 1))"
proof -
  from py_float_ge [OF assms(1)] assms(2) show x: "2 ^ 53 \<le> x" by simp
  have "(0::int) < 2 ^ 53" by simp
  with assms(1) have n: "n \<noteq> 0" by linarith
  have "(1024::rat) ^ 5 \<le> 2 ^ 53" "(1024::rat) ^ 4 \<le> 2 ^ 53" by simp_all
  with x assms(3) have a: "1024 ^ (length units - 1) \<le> x" by auto
  from assms(3) have k: "length units - 1 < length units" "length units - 1 \<noteq> 0"
      "\<not> Suc (length units - 1) < length units"
    by auto
  from format_size_with_unit [OF n assms(2) k(1) a] k(2,3)
  show "format_size_with units n
      = Inr (fmt_2f (x / 1024 ^ (length units - 1)) @ '' '' @ units ! (length units - 1))"
    by simp
qed

text \<open>
  C4. \<open>format_size(0)\<close> is \<open>0 B\<close>. A byte count from 1 to 1023 is printed as the integer
  itself with the unit \<open>B\<close>. From 1024 on, the unit is the one with index \<open>k\<close> for which
  \<open>1024^k \<le> n < 1024^(k+1)\<close>, or the last unit of the list when \<open>n\<close> is beyond its range
  (\<open>PB\<close> in two of the scripts, \<open>TB\<close> in the CLI script); the scaled value \<open>n / 1024^k\<close> is
  then at least 1 and, below the last unit, less than 1024. What is printed is that value
  rounded to two decimals, a number from 1.00 to 1024.00 below the last unit: the upper
  end 1024.00 is reached, because the rounding comes after the choice of the unit. Byte
  counts below \<open>2^53\<close> are floats exactly; a greater one is first rounded to a float \<open>x\<close>,
  which is printed with the last unit, and from \<open>2^1024\<close> on the conversion raises
  \<open>OverflowError\<close>.
\<close>

theorem format_size_units:
  "(f = format_size \<and> units = [''B'', ''KB'', ''MB'', ''GB'', ''TB'', ''PB'']
    \<or> f = format_size_cli \<and> units = [''B'', ''KB'', ''MB'', ''GB'', ''TB'']) \<longrightarrow>
     f 0 = Inr ''0 B''
   \<and> (0 < n \<and> n < 1024 \<longrightarrow> f n = Inr (str_nat (nat n) @ '' B''))
   \<and> (0 < k \<and> k < length units \<and> 1024 ^ k \<le> n
        \<and> (Suc k < length units \<longrightarrow> n < 1024 ^ Suc k) \<and> n < 2 ^ 53 \<longrightarrow>
          f n = Inr (fmt_2f (of_int n / 1024 ^ k) @ '' '' @ units ! k)
        \<and> 1 \<le> (of_int n :: rat) / 1024 ^ k
        \<and> 100 \<le> hundredths (of_int n / 1024 ^ k)
        \<and> (Suc k < length units \<longrightarrow>
              (of_int n :: rat) / 1024 ^ k < 1024
            \<and> hundredths (of_int n / 1024 ^ k) \<le> 102400))
   \<and> (2 ^ 53 \<le> n \<and> py_float n = Some x \<longrightarrow>
          2 ^ 53 \<le> x \<and> f n = Inr (fmt_2f (x / 1024 ^ (length units - 1)) @ '' '' @ last units))
   \<and> (py_float n = None \<longrightarrow> f n = Inl OverflowError)
   \<and> (2 ^ 1024 \<le> n \<longrightarrow> py_float n = None)
   \<and> (0 \<le> y \<longrightarrow>
          fmt_2f y = str_nat (nat (hundredths y) div 100) @ ''.''
            @ [digit_chr (nat (hundredths y) mod 100 div 10), digit_chr (nat (hundredths y) mod 10)]
        \<and> \<bar>of_int (hundredths y) - y * 100\<bar> \<le> 1 / 2)"
proof
  assume u: "f = format_size \<and> units = [''B'', ''KB'', ''MB'', ''GB'', ''TB'', ''PB'']
    \<or> f = format_size_cli \<and> units = [''B'', ''KB'', ''MB'', ''GB'', ''TB'']"
  have "format_size = format_size_with [''B'', ''KB'', ''MB'', ''GB'', ''TB'', ''PB'']"
    by (rule ext) (simp add: format_size_def)
  moreover have "format_size_cli = format_size_with [''B'', ''KB'', ''MB'', ''GB'', ''TB'']"
    by (rule ext) (simp add: format_size_cli_def)
  ultimately have f: "f = format_size_with units" using u by auto
  from u have l: "length units = 5 \<or> length units = 6" by auto
  from u have z: "units ! 0 = ''B''" "units \<noteq> []" by auto
  from u have t: "units ! (length units - 1) = last units" by auto
  have 1: "f 0 = Inr ''0 B''" unfolding f by (simp add: format_size_with_def)
  have 2: "0 < n \<and> n < 1024 \<longrightarrow> f n = Inr (str_nat (nat n) @ '' B'')"
    unfolding f using format_size_small [of n units] z by simp
  have 3: "0 < k \<and> k < length units \<and> 1024 ^ k \<le> n
        \<and> (Suc k < length units \<longrightarrow> n < 1024 ^ Suc k) \<and> n < 2 ^ 53 \<longrightarrow>
          f n = Inr (fmt_2f (of_int n / 1024 ^ k) @ '' '' @ units ! k)
        \<and> 1 \<le> (of_int n :: rat) / 1024 ^ k
        \<and> 100 \<le> hundredths (of_int n / 1024 ^ k)
        \<and> (Suc k < length units \<longrightarrow>
              (of_int n :: rat) / 1024 ^ k < 1024
            \<and> hundredths (of_int n / 1024 ^ k) \<le> 102400)"
  proof
    assume a: "0 < k \<and> k < length units \<and> 1024 ^ k \<le> n
        \<and> (Suc k < length units \<longrightarrow> n < 1024 ^ Suc k) \<and> n < 2 ^ 53"
    then have a1: "0 < k" and a2: "k < length units" and a3: "1024 ^ k \<le> n"
      and a4: "Suc k < length units \<longrightarrow> n < 1024 ^ Suc k" and a5: "n < 2 ^ 53"
      by simp_all
    note e = format_size_exact [OF a1 a2 a3 a4 a5]
    from e(2) have lo: "100 \<le> hundredths (of_int n / 1024 ^ k)"
      using hundredths_ge [of 1 "of_int n / 1024 ^ k"] by simp
    have hi: "Suc k < length units \<longrightarrow> hundredths (of_int n / 1024 ^ k) \<le> 102400"
    proof
      assume "Suc k < length units"
      with e(3) have "(of_int n :: rat) / 1024 ^ k \<le> of_int 1024" by simp
      with e(2) show "hundredths (of_int n / 1024 ^ k) \<le> 102400"
        using hundredths_bounds [of 1 "of_int n / 1024 ^ k" 1024] by simp
    qed
    from e lo hi show "f n = Inr (fmt_2f (of_int n / 1024 ^ k) @ '' '' @ units ! k)
        \<and> 1 \<le> (of_int n :: rat) / 1024 ^ k
        \<and> 100 \<le> hundredths (of_int n / 1024 ^ k)
        \<and> (Suc k < length units \<longrightarrow>
              (of_int n :: rat) / 1024 ^ k < 1024
            \<and> hundredths (of_int n / 1024 ^ k) \<le> 102400)"
      unfolding f by blast
  qed
  have 4: "2 ^ 53 \<le> n \<and> py_float n = Some x \<longrightarrow>
          2 ^ 53 \<le> x \<and> f n = Inr (fmt_2f (x / 1024 ^ (length units - 1)) @ '' '' @ last units)"
    unfolding f using format_size_top [of n x units] l t by auto
  have "py_float 0 = Some (of_int 0)" by (rule py_float_exact) simp
  then have 5: "py_float n = None \<longrightarrow> f n = Inl OverflowError"
    unfolding f by (auto simp: format_size_with_def)
  have 6: "2 ^ 1024 \<le> n \<longrightarrow> py_float n = None"
    using py_float_ge [of 1024 n] by simp
  have 7: "0 \<le> y \<longrightarrow>
          fmt_2f y = str_nat (nat (hundredths y) div 100) @ ''.''
            @ [digit_chr (nat (hundredths y) mod 100 div 10), digit_chr (nat (hundredths y) mod 10)]
        \<and> \<bar>of_int (hundredths y) - y * 100\<bar> \<le> 1 / 2"
    using round_half_even_nearest [of "y * 100"]
    by (simp add: fmt_2f_def Let_def hundredths_def)
  from 1 2 3 4 5 6 7 show "f 0 = Inr ''0 B''
   \<and> (0 < n \<and> n < 1024 \<longrightarrow> f n = Inr (str_nat (nat n) @ '' B''))
   \<and> (0 < k \<and> k < length units \<and> 1024 ^ k \<le> n
        \<and> (Suc k < length units \<longrightarrow> n < 1024 ^ Suc k) \<and> n < 2 ^ 53 \<longrightarrow>
          f n = Inr (fmt_2f (of_int n / 1024 ^ k) @ '' '' @ units ! k)
        \<and> 1 \<le> (of_int n :: rat) / 1024 ^ k
        \<and> 100 \<le> hundredths (of_int n / 1024 ^ k)
        \<and> (Suc k < length units \<longrightarrow>
              (of_int n :: rat) / 1024 ^ k < 1024
            \<and> hundredths (of_int n / 1024 ^ k) \<le> 102400))
   \<and> (2 ^ 53 \<le> n \<and> py_float n = Some x \<longrightarrow>
          2 ^ 53 \<le> x \<and> f n = Inr (fmt_2f (x / 1024 ^ (length units - 1)) @ '' '' @ last units))
   \<and> (py_float n = None \<longrightarrow> f n = Inl OverflowError)
   \<and> (2 ^ 1024 \<le> n \<longrightarrow> py_float n = None)
   \<and> (0 \<le> y \<longrightarrow>
          fmt_2f y = str_nat (nat (hundredths y) div 100) @ ''.''
            @ [digit_chr (nat (hundredths y) mod 100 div 10), digit_chr (nat (hundredths y) mod 10)]
        \<and> \<bar>of_int (hundredths y) - y * 100\<bar> \<le> 1 / 2)"
    by (intro conjI)
qed

theorem format_size_units_witness:
  "format_size 0 = Inr ''0 B''
   \<and> format_size 512 = Inr ''512 B''
   \<and> format_size 1536 = Inr ''1.50 KB''
   \<and> format_size_cli (2 ^ 41) = Inr ''2.00 TB''
   \<and> format_size_cli (2 ^ 60) = Inr ''1048576.00 TB''
   \<and> format_size (2 ^ 1024) = Inl OverflowError"
proof -
  let ?U6 = "[''B'', ''KB'', ''MB'', ''GB'', ''TB'', ''PB'']"
  let ?U5 = "[''B'', ''KB'', ''MB'', ''GB'', ''TB'']"
  have u6: "format_size = format_size \<and> ?U6 = ?U6 \<or> format_size = format_size_cli \<and> ?U6 = ?U5"
    by simp
  have u5: "format_size_cli = format_size \<and> ?U5 = ?U6
      \<or> format_size_cli = format_size_cli \<and> ?U5 = ?U5"
    by simp
  have 1: "format_size 0 = Inr ''0 B''"
    by (rule format_size_units [where f = format_size and units = ?U6,
          THEN mp, OF u6, THEN conjunct1])
  have "format_size 512 = Inr (str_nat (nat 512) @ '' B'')"
    by (rule format_size_units [where f = format_size and units = ?U6 and n = 512,
          THEN mp, OF u6, THEN conjunct2, THEN conjunct1, THEN mp]) simp
  then have 2: "format_size 512 = Inr ''512 B''"
    by (simp add: str_nat_digit str_nat_step digit_chr_def)
  have "format_size 1536 = Inr (fmt_2f (of_int 1536 / 1024 ^ 1) @ '' '' @ ?U6 ! 1)"
    by (rule format_size_units [where f = format_size and units = ?U6 and n = 1536 and k = 1,
          THEN mp, OF u6, THEN conjunct2, THEN conjunct2, THEN conjunct1,
          THEN mp, THEN conjunct1]) simp
  moreover have "hundredths (1536 / 1024) = 150"
    using round_half_even_unique [of 150 "1536 / 1024 * 100"] by (simp add: hundredths_def)
  then have "fmt_2f (1536 / 1024) = ''1.50''"
    by (simp add: fmt_2f_def str_nat_digit str_nat_step digit_chr_def)
  ultimately have 3: "format_size 1536 = Inr ''1.50 KB''" by simp
  have "format_size_cli (2 ^ 41) = Inr (fmt_2f (of_int (2 ^ 41) / 1024 ^ 4) @ '' '' @ ?U5 ! 4)"
    by (rule format_size_units [where f = format_size_cli and units = ?U5
          and n = "2 ^ 41" and k = 4, THEN mp, OF u5, THEN conjunct2, THEN conjunct2, THEN conjunct1,
          THEN mp, THEN conjunct1]) simp
  moreover have "hundredths 2 = 200"
    using round_half_even_unique [of 200 "2 * 100"] by (simp add: hundredths_def)
  then have "fmt_2f 2 = ''2.00''"
    by (simp add: fmt_2f_def str_nat_digit str_nat_step digit_chr_def)
  ultimately have 4: "format_size_cli (2 ^ 41) = Inr ''2.00 TB''" by simp
  have "bit_length (2 ^ 60) = 61"
    using bit_length_le [of "2 ^ 60" 61] bit_length_gt [of 60 "2 ^ 60"] by simp
  then have p: "py_float (2 ^ 60) = Some (2 ^ 60)" by (simp add: py_float_def Let_def)
  have "format_size_cli (2 ^ 60)
      = Inr (fmt_2f (2 ^ 60 / 1024 ^ (length ?U5 - 1)) @ '' '' @ last ?U5)"
    by (rule format_size_units [where f = format_size_cli and units = ?U5
          and n = "2 ^ 60" and x = "2 ^ 60", THEN mp, OF u5, THEN conjunct2, THEN conjunct2,
          THEN conjunct2, THEN conjunct1, THEN mp, THEN conjunct2]) (use p in simp)
  moreover have "hundredths 1048576 = 104857600"
    using round_half_even_unique [of 104857600 "1048576 * 100"] by (simp add: hundredths_def)
  then have "fmt_2f 1048576 = ''1048576.00''"
    by (simp add: fmt_2f_def str_nat_digit str_nat_step digit_chr_def)
  ultimately have 5: "format_size_cli (2 ^ 60) = Inr ''1048576.00 TB''" by simp
  have "py_float (2 ^ 1024) = None"
    by (rule format_size_units [where f = format_size and units = ?U6 and n = "2 ^ 1024",
          THEN mp, OF u6, THEN conjunct2, THEN conjunct2, THEN conjunct2,
          THEN conjunct2, THEN conjunct2, THEN conjunct1, THEN mp]) simp
  then have 6: "format_size (2 ^ 1024) = Inl OverflowError"
    by (rule format_size_units [where f = format_size and units = ?U6 and n = "2 ^ 1024",
          THEN mp, OF u6, THEN conjunct2, THEN conjunct2, THEN conjunct2,
          THEN conjunct2, THEN conjunct1, THEN mp])
  from 1 2 3 4 5 6 show ?thesis by (intro conjI)
qed

theorem format_size_units_counterexample:
  "format_size 1048575 = Inr ''1024.00 KB''
   \<and> format_size_cli 1048575 = Inr ''1024.00 KB''
   \<and> hundredths (1048575 / 1024) = 102400
   \<and> (1048575::int) < 1024 ^ 2
   \<and> format_size (2 ^ 1024) = Inl OverflowError"
proof -
  have h: "hundredths (1048575 / 1024) = 102400"
    using round_half_even_unique [of 102400 "1048575 / 1024 * 100"] by (simp add: hundredths_def)
  then have s: "fmt_2f (1048575 / 1024) = ''1024.00''"
    by (simp add: fmt_2f_def str_nat_digit str_nat_step digit_chr_def)
  have "format_size_with [''B'', ''KB'', ''MB'', ''GB'', ''TB'', ''PB''] 1048575
      = Inr (fmt_2f (of_int 1048575 / 1024 ^ 1) @ '' ''
             @ [''B'', ''KB'', ''MB'', ''GB'', ''TB'', ''PB''] ! 1)"
    by (rule format_size_exact(1)) simp_all
  with s have 1: "format_size 1048575 = Inr ''1024.00 KB''" by (simp add: format_size_def)
  have "format_size_with [''B'', ''KB'', ''MB'', ''GB'', ''TB''] 1048575
      = Inr (fmt_2f (of_int 1048575 / 1024 ^ 1) @ '' ''
             @ [''B'', ''KB'', ''MB'', ''GB'', ''TB''] ! 1)"
    by (rule format_size_exact(1)) simp_all
  with s have 2: "format_size_cli 1048575 = Inr ''1024.00 KB''" by (simp add: format_size_cli_def)
  have "py_float (2 ^ 1024) = None" using py_float_ge [of 1024 "2 ^ 1024"] by simp
  then have 3: "format_size (2 ^ 1024) = Inl OverflowError"
    by (simp add: format_size_def format_size_with_def)
  from 1 2 3 h show ?thesis by simp
qed

end
